theory Spec2Isabelle
  imports Main "HOL-Library.Sublist"
begin

section \<open>Auth0Importer (src/importer.js): data\<close>

text \<open>
  The importer is asynchronous JavaScript. The embedding follows one importer object
  through the calls it makes, in the order the promise chains run them:
  \<^item> a promise is a value of \<open>'a promise\<close>: fulfilled, rejected, or still pending;
  \<^item> the object's private state and the timers it has scheduled are a record that every
    method takes and returns;
  \<^item> what the collaborators answer (glob, fs, the auth0 client, request-promise, the
    clock) is a record of functions, \<open>world\<close>; a network answer may depend on the request,
    the token and the position of the call in the object's history;
  \<^item> every token request, every API request and every polling delay is appended to
    \<open>trace\<close>;
  \<^item> the polling loop has no bound in the source; here it takes a bound on the number of
    polls, and a job still pending at the bound leaves the promise \<open>Pending\<close>;
  \<^item> the logger is left out: it only writes messages. The client secret only configures
    the auth0 client, and the read stream of a submitted file is part of the request.
  Payloads have the shapes of the Management API: \<open>expires_in\<close> is an integer, a connection
  listing is an array of connections or null, a job is an object with an id and a status,
  an error listing is an array or null. A text body that \<open>JSON.parse\<close> refuses is \<open>None\<close>.
  The token request is answered when it is made. A renewal timer that comes due while a
  run is still in progress is not part of a run; \<open>fireTimer\<close> is the timer's callback, to be
  applied to a state between runs.
\<close>

datatype error =
    Error string      \<comment> \<open>\<open>new Error(message)\<close> thrown by the importer\<close>
  | Failure string    \<comment> \<open>a rejection of glob, fs, the auth0 client or request-promise\<close>
  | TypeError
  | SyntaxError       \<comment> \<open>\<open>JSON.parse\<close> on a body that is not JSON\<close>

datatype 'a promise = Fulfilled 'a | Rejected error | Pending

record token_response =
  access_token :: string
  expires_in :: int

record connection =
  conn_id :: string
  conn_name :: string
  strategy :: string
  enabled_clients :: "string list"

record summary =
  inserted :: nat
  updated :: nat
  failed :: nat

record job =
  job_id :: string
  status :: string
  job_summary :: "summary option"

record file_result =
  name :: string
  result :: job
  errors :: "string list option"   \<comment> \<open>the parsed error listing; \<open>None\<close> is JSON null\<close>

record run_stats =
  startTime :: int
  connection :: "string \<times> string"   \<comment> \<open>\<open>{id, name}\<close>\<close>
  upsert :: bool
  email :: bool
  files :: "file_result list"
  endTime :: "int option"

record options =
  opt_connection :: "string option"
  opt_upsert :: "bool option"
  opt_email :: "bool option"

datatype request =
    GetConnections string
      \<comment> \<open>\<open>{method: 'GET', json: true, uri: 'connections', qs: {name}}\<close>\<close>
  | PostUsersImport string string string string
      \<comment> \<open>\<open>{method: 'POST', uri: 'jobs/users-imports', formData}\<close>: the file, connection_id,
          upsert, send_completion_email\<close>
  | GetJob string         \<comment> \<open>\<open>{uri: `jobs/${id}`}\<close>\<close>
  | GetJobErrors string   \<comment> \<open>\<open>{uri: `jobs/${id}/errors`}\<close>\<close>

fun uri :: "request \<Rightarrow> string" where
  "uri (GetConnections n) = ''connections''"
| "uri (PostUsersImport f c u e) = ''jobs/users-imports''"
| "uri (GetJob i) = ''jobs/'' @ i"
| "uri (GetJobErrors i) = ''jobs/'' @ i @ ''/errors''"

datatype event =
    Grant string string         \<comment> \<open>clientCredentialsGrant: audience, scope\<close>
  | Call string string request  \<comment> \<open>a request: full uri, bearer token, options\<close>
  | Sleep int                   \<comment> \<open>a polling delay, in milliseconds\<close>

record world =
  glob :: "string \<Rightarrow> error + string list"
  statSync_size :: "string \<Rightarrow> error + nat"
  now :: "nat \<Rightarrow> int"
  clientCredentialsGrant :: "nat \<Rightarrow> error + token_response"
  rp_connections :: "nat \<Rightarrow> string \<Rightarrow> request \<Rightarrow> error + connection list option"
  rp_job :: "nat \<Rightarrow> string \<Rightarrow> request \<Rightarrow> error + job option"
  rp_errors :: "nat \<Rightarrow> string \<Rightarrow> request \<Rightarrow> error + string list option option"

record importer =
  clientId :: string
  apiUrl :: string
  tokenPromise :: "string promise option"
  tokenTimeout :: "nat option"         \<comment> \<open>the handle \<open>setTimeout\<close> returned last\<close>
  timers :: "(nat \<times> int) list"          \<comment> \<open>scheduled renewals: handle and delay (ms)\<close>
  nextTimer :: nat
  trace :: "event list"

section \<open>Constants\<close>

definition MS_IN_SEC :: int where "MS_IN_SEC = 1000"
definition RENEW_INTERVAL :: int where "RENEW_INTERVAL = 60"
definition WAIT_INTERVAL :: int where "WAIT_INTERVAL = 5 * 1000"
definition AUTH0_JOB_STATUS_PENDING :: string where "AUTH0_JOB_STATUS_PENDING = ''pending''"
definition MAX_FILE_SIZE :: nat where "MAX_FILE_SIZE = 500000"

section \<open>Promises\<close>

text \<open>\<open>p.then(f)\<close>, with the state the callback runs in.\<close>

definition thenP ::
  "'a promise \<times> importer \<Rightarrow> ('a \<Rightarrow> importer \<Rightarrow> 'b promise \<times> importer) \<Rightarrow> 'b promise \<times> importer" where
  "thenP ps f =
     (case fst ps of
        Fulfilled x \<Rightarrow> f x (snd ps)
      | Rejected e \<Rightarrow> (Rejected e, snd ps)
      | Pending \<Rightarrow> (Pending, snd ps))"

text \<open>\<open>Promise.all\<close> over the patterns: the matches of each, or the first rejection.\<close>

fun promise_all :: "(error + 'a) list \<Rightarrow> error + 'a list" where
  "promise_all [] = Inr []"
| "promise_all (r # rs) =
     (case r of
        Inl e \<Rightarrow> Inl e
      | Inr x \<Rightarrow> (case promise_all rs of Inl e \<Rightarrow> Inl e | Inr xs \<Rightarrow> Inr (x # xs)))"

text \<open>\<open>Array.prototype.filter\<close> with a predicate that may throw.\<close>

fun filterE :: "('a \<Rightarrow> error + bool) \<Rightarrow> 'a list \<Rightarrow> error + 'a list" where
  "filterE p [] = Inr []"
| "filterE p (x # xs) =
     (case p x of
        Inl e \<Rightarrow> Inl e
      | Inr b \<Rightarrow>
          (case filterE p xs of
             Inl e \<Rightarrow> Inl e
           | Inr ys \<Rightarrow> Inr (if b then x # ys else ys)))"

section \<open>File resolver\<close>

definition readFiles :: "world \<Rightarrow> string \<Rightarrow> error + string list" where
  "readFiles w filePattern = (case glob w filePattern of Inl err \<Rightarrow> Inl err | Inr fs \<Rightarrow> Inr fs)"

definition checkFileSize :: "world \<Rightarrow> string \<Rightarrow> error + bool" where
  "checkFileSize w fileName =
     (case statSync_size w fileName of
        Inl e \<Rightarrow> Inl e
      | Inr sz \<Rightarrow> if sz > MAX_FILE_SIZE then Inr False else Inr True)"

text \<open>\<open>allFiles.reduce((f, current) => f.concat(current), [])\<close>\<close>

definition flatten :: "string list list \<Rightarrow> string list" where
  "flatten allFiles = foldl (\<lambda>f current. f @ current) [] allFiles"

section \<open>The importer's methods\<close>

definition Auth0Importer :: "string \<Rightarrow> string \<Rightarrow> importer" where
  "Auth0Importer cid domain =
     \<lparr>clientId = cid, apiUrl = ''https://'' @ domain @ ''/api/v2/'', tokenPromise = None,
      tokenTimeout = None, timers = [], nextTimer = 0, trace = []\<rparr>"

definition resetTokenTimeout :: "importer \<Rightarrow> importer" where
  "resetTokenTimeout s = s\<lparr>timers := filter (\<lambda>t. Some (fst t) \<noteq> tokenTimeout s) (timers s)\<rparr>"

definition getManagementToken :: "world \<Rightarrow> importer \<Rightarrow> importer" where
  "getManagementToken w s =
     (let s1 = s\<lparr>trace := trace s @ [Grant (apiUrl s) ''create:users read:connections'']\<rparr>
      in case clientCredentialsGrant w (length (trace s)) of
           Inl e \<Rightarrow> s1\<lparr>tokenPromise := Some (Rejected e)\<rparr>
         | Inr response \<Rightarrow>
             s1\<lparr>tokenPromise := Some (Fulfilled (access_token response)),
                tokenTimeout := Some (nextTimer s),
                timers := timers s @
                  [(nextTimer s, min ((expires_in response - RENEW_INTERVAL) * MS_IN_SEC) 2147483647)],
                nextTimer := Suc (nextTimer s)\<rparr>)"

text \<open>The callback of the renewal timer with handle \<open>h\<close>, run when the timer comes due.\<close>

definition fireTimer :: "world \<Rightarrow> nat \<Rightarrow> importer \<Rightarrow> importer" where
  "fireTimer w h s =
     (if h \<in> fst ` set (timers s)
      then getManagementToken w (s\<lparr>timers := filter (\<lambda>t. fst t \<noteq> h) (timers s)\<rparr>)
      else s)"

definition callApi ::
  "(nat \<Rightarrow> string \<Rightarrow> request \<Rightarrow> error + 'a) \<Rightarrow> request \<Rightarrow> importer \<Rightarrow> 'a promise \<times> importer" where
  "callApi rp opts s =
     (case tokenPromise s of
        None \<Rightarrow> (Rejected TypeError, s)
      | Some Pending \<Rightarrow> (Pending, s)
      | Some (Rejected e) \<Rightarrow> (Rejected e, s)
      | Some (Fulfilled token) \<Rightarrow>
          (case rp (length (trace s)) token opts of Inl e \<Rightarrow> Rejected e | Inr body \<Rightarrow> Fulfilled body,
           s\<lparr>trace := trace s @ [Call (apiUrl s @ uri opts) token opts]\<rparr>))"

text \<open>The callback of \<open>getConnection\<close>, applied to the listing.\<close>

definition validateConnections ::
  "string \<Rightarrow> string \<Rightarrow> bool \<Rightarrow> bool \<Rightarrow> int \<Rightarrow> connection list option \<Rightarrow> run_stats promise" where
  "validateConnections cname cid ups eml date connections =
     (case connections of
        None \<Rightarrow> Rejected (Error (''Connection '' @ cname @ '' was not found''))
      | Some [] \<Rightarrow> Rejected (Error (''Connection '' @ cname @ '' was not found''))
      | Some (c0 # rest) \<Rightarrow>
          if strategy c0 \<noteq> ''auth0''
          then Rejected (Error (''Connection '' @ cname @ '' is not a database connection''))
          else if cid \<notin> set (enabled_clients c0)
          then Rejected (Error (''Connection '' @ cname @ '' is not enabled for client '' @ cid))
          else Fulfilled \<lparr>startTime = date, connection = (conn_id c0, conn_name c0),
                 upsert = ups, email = eml, files = [], endTime = None\<rparr>)"

definition getConnection :: "world \<Rightarrow> string \<Rightarrow> bool \<Rightarrow> bool \<Rightarrow> importer \<Rightarrow> run_stats promise \<times> importer" where
  "getConnection w cname ups eml s =
     thenP (callApi (rp_connections w) (GetConnections cname) s)
       (\<lambda>connections s'.
          (validateConnections cname (clientId s') ups eml (now w (length (trace s'))) connections, s'))"

definition sleep :: "int \<Rightarrow> importer \<Rightarrow> importer" where
  "sleep ms s = s\<lparr>trace := trace s @ [Sleep ms]\<rparr>"

text \<open>
  \<open>waitAndCheck(name, stats)\<close> applied to a status body. The first argument bounds the
  number of polls; a job still pending after that many leaves the promise pending.
\<close>

fun waitAndCheck ::
  "world \<Rightarrow> nat \<Rightarrow> string \<Rightarrow> run_stats \<Rightarrow> job option \<Rightarrow> importer \<Rightarrow> run_stats promise \<times> importer" where
  "waitAndCheck w polls fname stats None s = (Rejected SyntaxError, s)"
| "waitAndCheck w polls fname stats (Some res) s =
     (if status res \<noteq> AUTH0_JOB_STATUS_PENDING
      then thenP (callApi (rp_errors w) (GetJobErrors (job_id res)) s)
             (\<lambda>errorsString s'.
                case errorsString of
                  None \<Rightarrow> (Rejected SyntaxError, s')
                | Some errs \<Rightarrow>
                    (Fulfilled (stats\<lparr>files := files stats @
                        [\<lparr>name = fname, result = res, errors = errs\<rparr>]\<rparr>), s'))
      else (case polls of
              0 \<Rightarrow> (Pending, s)
            | Suc n \<Rightarrow>
                thenP (callApi (rp_job w) (GetJob (job_id res)) (sleep WAIT_INTERVAL s))
                  (\<lambda>r s'. waitAndCheck w n fname stats r s')))"

definition bool_toString :: "bool \<Rightarrow> string" where
  "bool_toString b = (if b then ''true'' else ''false'')"

definition postUserImport ::
  "world \<Rightarrow> nat \<Rightarrow> run_stats promise \<times> importer \<Rightarrow> string \<Rightarrow> run_stats promise \<times> importer" where
  "postUserImport w polls promise file =
     thenP promise
       (\<lambda>stats s.
          thenP (callApi (rp_job w)
                   (PostUsersImport file (fst (connection stats))
                      (bool_toString (upsert stats)) (bool_toString (email stats))) s)
            (\<lambda>r s'. waitAndCheck w polls file stats r s'))"

text \<open>\<open>results.files.some(f => f.errors.length > 0)\<close>: reading \<open>length\<close> of null throws.\<close>

fun some_errors :: "file_result list \<Rightarrow> error + bool" where
  "some_errors [] = Inr False"
| "some_errors (f # fs) =
     (case errors f of
        None \<Rightarrow> Inl TypeError
      | Some es \<Rightarrow> if length es > 0 then Inr True else some_errors fs)"

text \<open>The expanded, filtered file list of \<open>import\<close>.\<close>

definition admitted :: "world \<Rightarrow> string list option \<Rightarrow> error + string list" where
  "admitted w patterns =
     (case promise_all (map (readFiles w) (case patterns of None \<Rightarrow> [] | Some ps \<Rightarrow> ps)) of
        Inl e \<Rightarrow> Inl e
      | Inr allFiles \<Rightarrow> filterE (checkFileSize w) (flatten allFiles))"

definition finish :: "world \<Rightarrow> run_stats \<Rightarrow> importer \<Rightarrow> run_stats promise \<times> importer" where
  "finish w results s =
     (let s' = resetTokenTimeout s
      in case some_errors (files results) of
           Inl e \<Rightarrow> (Rejected e, s')
         | Inr b \<Rightarrow> (Fulfilled (results\<lparr>endTime := Some (now w (length (trace s')))\<rparr>), s'))"

definition import ::
  "world \<Rightarrow> nat \<Rightarrow> options \<Rightarrow> string list option \<Rightarrow> importer \<Rightarrow> run_stats promise \<times> importer" where
  "import w polls opts patterns s =
     (let ups = (case opt_upsert opts of None \<Rightarrow> False | Some b \<Rightarrow> b);
          eml = (case opt_email opts of None \<Rightarrow> False | Some b \<Rightarrow> b)
      in case opt_connection opts of
           None \<Rightarrow> (Rejected (Error ''You must specificy a connection name in options.connection''), s)
         | Some cname \<Rightarrow>
             if length cname = 0
             then (Rejected (Error ''You must specificy a connection name in options.connection''), s)
             else
               (let s1 = getManagementToken w s
                in case admitted w patterns of
                     Inl e \<Rightarrow> (Rejected e, s1)
                   | Inr fs \<Rightarrow>
                       thenP (foldl (postUserImport w polls) (getConnection w cname ups eml s1) fs)
                         (finish w)))"

section \<open>Reading a trace\<close>

text \<open>The files of the job submissions in a sequence of events, in order.\<close>

fun submissions :: "event list \<Rightarrow> string list" where
  "submissions [] = []"
| "submissions (Call u t (PostUsersImport f c ups eml) # evs) = f # submissions evs"
| "submissions (ev # evs) = submissions evs"

text \<open>The first arguments of the polling delays, the status fetches and the error fetches.\<close>

fun delays :: "event list \<Rightarrow> int list" where
  "delays [] = []"
| "delays (Sleep ms # evs) = ms # delays evs"
| "delays (ev # evs) = delays evs"

fun status_fetches :: "event list \<Rightarrow> string list" where
  "status_fetches [] = []"
| "status_fetches (Call u t (GetJob i) # evs) = i # status_fetches evs"
| "status_fetches (ev # evs) = status_fetches evs"

fun error_fetches :: "event list \<Rightarrow> string list" where
  "error_fetches [] = []"
| "error_fetches (Call u t (GetJobErrors i) # evs) = i # error_fetches evs"
| "error_fetches (ev # evs) = error_fetches evs"

section \<open>A test double of the collaborators\<close>

text \<open>
  A tenant with one database connection \<open>db\<close>, enabled for the client \<open>cid\<close>. Every
  submitted job is pending at first; a status fetch answers \<open>completed\<close> from position 6 of
  the history on. The job of \<open>b.json\<close> has two error records, the others none.
\<close>

definition conn_db :: connection where
  "conn_db = \<lparr>conn_id = ''con_1'', conn_name = ''db'', strategy = ''auth0'',
     enabled_clients = [''other'', ''cid'']\<rparr>"

definition demo_world :: world where
  "demo_world =
     \<lparr>glob = (\<lambda>p. if p = ''a.json'' then Inr [''a.json'']
                  else if p = ''*.json'' then Inr [''a.json'', ''b.json'']
                  else if p = ''big*'' then Inr [''big.json'']
                  else Inr []),
      statSync_size = (\<lambda>f. if f = ''big.json'' then Inr 500001
                            else if f = ''a.json'' then Inr 500000 else Inr 10),
      now = (\<lambda>n. 1000 * int n),
      clientCredentialsGrant = (\<lambda>n. Inr \<lparr>access_token = ''tok'', expires_in = 120\<rparr>),
      rp_connections = (\<lambda>n tok req.
         if req = GetConnections ''db'' then Inr (Some [conn_db]) else Inr (Some [])),
      rp_job = (\<lambda>n tok req.
         case req of
           PostUsersImport f c u e \<Rightarrow>
             Inr (Some \<lparr>job_id = f, status = ''pending'', job_summary = None\<rparr>)
         | GetJob i \<Rightarrow>
             Inr (Some \<lparr>job_id = i, status = (if n < 6 then ''pending'' else ''completed''),
                        job_summary = None\<rparr>)
         | _ \<Rightarrow> Inl (Failure ''404'')),
      rp_errors = (\<lambda>n tok req.
         if req = GetJobErrors ''b.json'' then Inr (Some (Some [''e1'', ''e2'']))
         else Inr (Some (Some [])))\<rparr>"

definition demo_options :: options where
  "demo_options = \<lparr>opt_connection = Some ''db'', opt_upsert = None, opt_email = Some True\<rparr>"

definition demo_importer :: importer where
  "demo_importer = Auth0Importer ''cid'' ''t.auth0.com''"

text \<open>The stats after validation, the importer right after the submission of \<open>a.json\<close>, and the
  job descriptor that submission answers.\<close>

definition demo_stats :: run_stats where
  "demo_stats = \<lparr>startTime = 2000, connection = (''con_1'', ''db''), upsert = False, email = True,
     files = [], endTime = None\<rparr>"

definition demo_submitted :: importer where
  "demo_submitted =
     snd (callApi (rp_job demo_world) (PostUsersImport ''a.json'' ''con_1'' ''false'' ''true'')
            (snd (getConnection demo_world ''db'' False True
                    (getManagementToken demo_world demo_importer))))"

definition pending_job :: job where
  "pending_job = \<lparr>job_id = ''a.json'', status = ''pending'', job_summary = None\<rparr>"

section \<open>Frame lemmas\<close>

text \<open>
  A request, a polling loop and a submission only append events to the trace; a polling
  loop submits nothing, a submission submits its own file at most once, and the fold over
  the files submits a prefix of them.
\<close>

lemma thenP_Fulfilled [simp]: "thenP (Fulfilled x, s) f = f x s"
  by (simp add: thenP_def)

lemma thenP_Rejected [simp]: "thenP (Rejected e, s) f = (Rejected e, s)"
  by (simp add: thenP_def)

lemma thenP_Pending [simp]: "thenP (Pending, s) f = (Pending, s)"
  by (simp add: thenP_def)

lemma submissions_append [simp]: "submissions (xs @ ys) = submissions xs @ submissions ys"
  by (induction xs rule: submissions.induct) simp_all

lemma callApi_cases:
  obtains
    (silent) "snd (callApi rp req s) = s" "\<And>x. fst (callApi rp req s) \<noteq> Fulfilled x"
  | (called) tok where "tokenPromise s = Some (Fulfilled tok)"
      "callApi rp req s =
         (case rp (length (trace s)) tok req of Inl e \<Rightarrow> Rejected e | Inr body \<Rightarrow> Fulfilled body,
          s\<lparr>trace := trace s @ [Call (apiUrl s @ uri req) tok req]\<rparr>)"
proof (cases "tokenPromise s")
  case None
  then show ?thesis using silent by (simp add: callApi_def)
next
  case (Some p)
  then show ?thesis
  proof (cases p)
    case (Fulfilled tok)
    with Some show ?thesis using called [of tok] by (simp add: callApi_def)
  next
    case (Rejected e)
    with Some show ?thesis using silent by (simp add: callApi_def)
  next
    case Pending
    with Some show ?thesis using silent by (simp add: callApi_def)
  qed
qed

lemma callApi_token:
  "tokenPromise s = Some (Fulfilled token) \<Longrightarrow>
   callApi rp opts s =
     (case rp (length (trace s)) token opts of Inl e \<Rightarrow> Rejected e | Inr body \<Rightarrow> Fulfilled body,
      s\<lparr>trace := trace s @ [Call (apiUrl s @ uri opts) token opts]\<rparr>)"
  by (simp add: callApi_def)

lemma callApi_no_token:
  "tokenPromise s = Some (Rejected e) \<Longrightarrow> callApi rp opts s = (Rejected e, s)"
  by (simp add: callApi_def)


lemma terminal_frame:
  assumes "status res \<noteq> AUTH0_JOB_STATUS_PENDING"
  shows "\<exists>evs. snd (waitAndCheck w n f st (Some res) s) = s\<lparr>trace := trace s @ evs\<rparr> \<and>
     submissions evs = [] \<and>
     (\<forall>st'. fst (waitAndCheck w n f st (Some res) s) = Fulfilled st' \<longrightarrow>
        (\<exists>fr. st' = st\<lparr>files := files st @ [fr]\<rparr> \<and> name fr = f))"
proof (cases rule: callApi_cases [of "rp_errors w" "GetJobErrors (job_id res)" s])
  case silent
  then show ?thesis using assms
    by (auto simp: thenP_def split: promise.splits intro!: exI [of _ "[]"])
next
  case (called tok)
  then show ?thesis using assms
    by (auto split: sum.splits option.splits
        intro!: exI [of _ "[Call (apiUrl s @ uri (GetJobErrors (job_id res))) tok (GetJobErrors (job_id res))]"])
qed

lemma waitAndCheck_frame:
  "\<exists>evs. snd (waitAndCheck w n f st r s) = s\<lparr>trace := trace s @ evs\<rparr> \<and> submissions evs = [] \<and>
     (\<forall>st'. fst (waitAndCheck w n f st r s) = Fulfilled st' \<longrightarrow>
        (\<exists>fr. st' = st\<lparr>files := files st @ [fr]\<rparr> \<and> name fr = f))"
proof (induction n arbitrary: r s)
  case 0
  show ?case
  proof (cases r)
    case None
    then show ?thesis by (auto intro: exI [of _ "[]"])
  next
    case (Some res)
    show ?thesis
    proof (cases "status res \<noteq> AUTH0_JOB_STATUS_PENDING")
      case True
      then show ?thesis unfolding Some by (rule terminal_frame)
    next
      case False
      then show ?thesis using Some by (auto intro: exI [of _ "[]"])
    qed
  qed
next
  case (Suc n)
  show ?case
  proof (cases r)
    case None
    then show ?thesis by (auto intro: exI [of _ "[]"])
  next
    case (Some res)
    show ?thesis
    proof (cases "status res \<noteq> AUTH0_JOB_STATUS_PENDING")
      case True
      then show ?thesis unfolding Some by (rule terminal_frame)
    next
      case False
      let ?s1 = "sleep WAIT_INTERVAL s"
      let ?req = "GetJob (job_id res)"
      show ?thesis
      proof (cases rule: callApi_cases [of "rp_job w" ?req ?s1])
        case silent
        then show ?thesis using Some False
          by (auto simp: thenP_def sleep_def split: promise.splits
              intro!: exI [of _ "[Sleep WAIT_INTERVAL]"])
      next
        case (called tok)
        show ?thesis
        proof (cases "rp_job w (length (trace ?s1)) tok ?req")
          case (Inl e)
          then show ?thesis using Some False called
            by (auto simp: sleep_def
                intro!: exI [of _ "[Sleep WAIT_INTERVAL, Call (apiUrl s @ uri ?req) tok ?req]"])
        next
          case (Inr body)
          let ?s2 = "?s1\<lparr>trace := trace ?s1 @ [Call (apiUrl ?s1 @ uri ?req) tok ?req]\<rparr>"
          from Suc.IH [of body ?s2] obtain evs where
            evs: "snd (waitAndCheck w n f st body ?s2) = ?s2\<lparr>trace := trace ?s2 @ evs\<rparr>"
              "submissions evs = []"
              "\<forall>st'. fst (waitAndCheck w n f st body ?s2) = Fulfilled st' \<longrightarrow>
                 (\<exists>fr. st' = st\<lparr>files := files st @ [fr]\<rparr> \<and> name fr = f)"
            by blast
          have step: "waitAndCheck w (Suc n) f st r s = waitAndCheck w n f st body ?s2"
            using Some False called Inr by simp
          show ?thesis
            unfolding step using evs
            by (intro exI [of _ "[Sleep WAIT_INTERVAL, Call (apiUrl s @ uri ?req) tok ?req] @ evs"])
               (simp add: sleep_def)
        qed
      qed
    qed
  qed
qed

lemma postUserImport_unfulfilled:
  "(\<And>x. p \<noteq> Fulfilled x) \<Longrightarrow> postUserImport w n (p, s) f = (p, s)"
  by (cases p) (auto simp: postUserImport_def)

lemma foldl_unfulfilled:
  "(\<And>x. p \<noteq> Fulfilled x) \<Longrightarrow> foldl (postUserImport w n) (p, s) fs = (p, s)"
  by (induction fs) (simp_all add: postUserImport_unfulfilled)

lemma postUserImport_frame:
  "\<exists>evs. snd (postUserImport w n (p, s) f) = s\<lparr>trace := trace s @ evs\<rparr> \<and>
     (submissions evs = [] \<or> submissions evs = [f]) \<and>
     (\<forall>st'. fst (postUserImport w n (p, s) f) = Fulfilled st' \<longrightarrow>
        (\<exists>st fr. p = Fulfilled st \<and> st' = st\<lparr>files := files st @ [fr]\<rparr> \<and> name fr = f \<and>
           submissions evs = [f]))"
proof (cases p)
  case (Fulfilled st)
  let ?req = "PostUsersImport f (fst (connection st)) (bool_toString (upsert st)) (bool_toString (email st))"
  show ?thesis
  proof (cases rule: callApi_cases [of "rp_job w" ?req s])
    case silent
    then show ?thesis using Fulfilled
      by (auto simp: postUserImport_def thenP_def split: promise.splits intro!: exI [of _ "[]"])
  next
    case (called tok)
    let ?s1 = "s\<lparr>trace := trace s @ [Call (apiUrl s @ uri ?req) tok ?req]\<rparr>"
    show ?thesis
    proof (cases "rp_job w (length (trace s)) tok ?req")
      case (Inl e)
      then show ?thesis using Fulfilled called
        by (auto simp: postUserImport_def intro!: exI [of _ "[Call (apiUrl s @ uri ?req) tok ?req]"])
    next
      case (Inr body)
      from waitAndCheck_frame [of w n f st body ?s1] obtain evs where
        evs: "snd (waitAndCheck w n f st body ?s1) = ?s1\<lparr>trace := trace ?s1 @ evs\<rparr>"
          "submissions evs = []"
          "\<forall>st'. fst (waitAndCheck w n f st body ?s1) = Fulfilled st' \<longrightarrow>
             (\<exists>fr. st' = st\<lparr>files := files st @ [fr]\<rparr> \<and> name fr = f)"
        by blast
      have step: "postUserImport w n (p, s) f = waitAndCheck w n f st body ?s1"
        using Fulfilled called Inr by (simp add: postUserImport_def)
      show ?thesis
        unfolding step using evs Fulfilled
        by (intro exI [of _ "[Call (apiUrl s @ uri ?req) tok ?req] @ evs"]) simp
    qed
  qed
next
  case (Rejected e)
  then show ?thesis by (auto simp: postUserImport_def intro!: exI [of _ "[]"])
next
  case Pending
  then show ?thesis by (auto simp: postUserImport_def intro!: exI [of _ "[]"])
qed

lemma foldl_postUserImport_frame:
  "\<exists>evs. snd (foldl (postUserImport w n) (p, s) fs) = s\<lparr>trace := trace s @ evs\<rparr> \<and>
     prefix (submissions evs) fs \<and>
     (\<forall>st'. fst (foldl (postUserImport w n) (p, s) fs) = Fulfilled st' \<longrightarrow>
        (\<exists>st frs. p = Fulfilled st \<and> st' = st\<lparr>files := files st @ frs\<rparr> \<and> map name frs = fs \<and>
           submissions evs = fs))"
proof (induction fs arbitrary: p s)
  case Nil
  show ?case by (cases p) (auto intro!: exI [of _ "[]"])
next
  case (Cons f fs)
  obtain p1 s1 where step: "postUserImport w n (p, s) f = (p1, s1)"
    by (cases "postUserImport w n (p, s) f")
  from postUserImport_frame [of w n p s f] step obtain evs1 where
    evs1: "s1 = s\<lparr>trace := trace s @ evs1\<rparr>"
      "submissions evs1 = [] \<or> submissions evs1 = [f]"
      "\<forall>st'. p1 = Fulfilled st' \<longrightarrow>
         (\<exists>st fr. p = Fulfilled st \<and> st' = st\<lparr>files := files st @ [fr]\<rparr> \<and> name fr = f \<and>
            submissions evs1 = [f])"
    by auto
  show ?case
  proof (cases "\<exists>x. p1 = Fulfilled x")
    case False
    then have "foldl (postUserImport w n) (p1, s1) fs = (p1, s1)"
      by (intro foldl_unfulfilled) blast
    then show ?thesis using step evs1 False
      by (intro exI [of _ evs1]) auto
  next
    case True
    then obtain st1 where p1: "p1 = Fulfilled st1" by blast
    with evs1 obtain st fr where
      st: "p = Fulfilled st" "st1 = st\<lparr>files := files st @ [fr]\<rparr>" "name fr = f"
        "submissions evs1 = [f]"
      by blast
    from Cons.IH [of p1 s1] obtain evs2 where
      evs2: "snd (foldl (postUserImport w n) (p1, s1) fs) = s1\<lparr>trace := trace s1 @ evs2\<rparr>"
        "prefix (submissions evs2) fs"
        "\<forall>st'. fst (foldl (postUserImport w n) (p1, s1) fs) = Fulfilled st' \<longrightarrow>
           (\<exists>st frs. p1 = Fulfilled st \<and> st' = st\<lparr>files := files st @ frs\<rparr> \<and> map name frs = fs \<and>
              submissions evs2 = fs)"
      by blast
    show ?thesis
    proof (intro exI [of _ "evs1 @ evs2"] conjI allI impI)
      show "snd (foldl (postUserImport w n) (p, s) (f # fs)) = s\<lparr>trace := trace s @ evs1 @ evs2\<rparr>"
        using step evs1(1) evs2(1) by simp
      show "prefix (submissions (evs1 @ evs2)) (f # fs)"
        using st(4) evs2(2) by simp
    next
      fix st'
      assume "fst (foldl (postUserImport w n) (p, s) (f # fs)) = Fulfilled st'"
      then have "fst (foldl (postUserImport w n) (p1, s1) fs) = Fulfilled st'"
        using step by simp
      with evs2(3) p1 obtain frs where
        frs: "st' = st1\<lparr>files := files st1 @ frs\<rparr>" "map name frs = fs" "submissions evs2 = fs"
        by auto
      show "\<exists>st frs. p = Fulfilled st \<and> st' = st\<lparr>files := files st @ frs\<rparr> \<and>
              map name frs = f # fs \<and> submissions (evs1 @ evs2) = f # fs"
        using st frs by (intro exI [of _ st] exI [of _ "fr # frs"]) simp
    qed
  qed
qed

text \<open>
  A whole run appends events to the trace; the files it submits are a prefix of the admitted
  list, and all of it, in order, when the run is fulfilled.
\<close>

lemma trace_getManagementToken:
  "trace (getManagementToken w s) = trace s @ [Grant (apiUrl s) ''create:users read:connections'']"
  by (simp add: getManagementToken_def Let_def split: sum.splits)

lemma getConnection_frame:
  "\<exists>evs. snd (getConnection w cname ups eml s) = s\<lparr>trace := trace s @ evs\<rparr> \<and> submissions evs = [] \<and>
     (\<forall>r. fst (getConnection w cname ups eml s) = Fulfilled r \<longrightarrow> files r = [])"
proof (cases rule: callApi_cases [of "rp_connections w" "GetConnections cname" s])
  case silent
  then show ?thesis
    by (auto simp: getConnection_def thenP_def split: promise.splits intro!: exI [of _ "[]"])
next
  case (called tok)
  then show ?thesis
    by (auto simp: getConnection_def validateConnections_def
        split: sum.splits option.splits list.splits if_splits
        intro!: exI [of _ "[Call (apiUrl s @ uri (GetConnections cname)) tok (GetConnections cname)]"])
qed

lemma getConnection_token:
  "fst (getConnection w cname ups eml s) = Fulfilled st \<Longrightarrow> \<exists>tok. tokenPromise s = Some (Fulfilled tok)"
  by (auto simp: getConnection_def callApi_def thenP_def split: option.splits promise.splits)

lemma finish_frame:
  "trace (snd (finish w r s)) = trace s \<and>
   (\<forall>r'. fst (finish w r s) = Fulfilled r' \<longrightarrow> files r' = files r)"
  by (auto simp: finish_def resetTokenTimeout_def Let_def split: sum.splits)

lemma import_frame:
  assumes "import w polls opts patterns s = (p, s')"
  shows "\<exists>evs. trace s' = trace s @ evs \<and>
     prefix (submissions evs) (case admitted w patterns of Inl e \<Rightarrow> [] | Inr fs \<Rightarrow> fs) \<and>
     (\<forall>r. p = Fulfilled r \<longrightarrow>
        admitted w patterns = Inr (map name (files r)) \<and> submissions evs = map name (files r))"
proof (cases "opt_connection opts")
  case None
  then show ?thesis using assms by (auto simp: import_def)
next
  case (Some cname)
  show ?thesis
  proof (cases "length cname = 0")
    case True
    then show ?thesis using assms Some by (auto simp: import_def)
  next
    case False
    let ?s1 = "getManagementToken w s"
    let ?g = "Grant (apiUrl s) ''create:users read:connections''"
    show ?thesis
    proof (cases "admitted w patterns")
      case (Inl e)
      then show ?thesis using assms Some False
        by (auto simp: import_def Let_def trace_getManagementToken)
    next
      case (Inr fs)
      let ?ups = "case opt_upsert opts of None \<Rightarrow> False | Some b \<Rightarrow> b"
      let ?eml = "case opt_email opts of None \<Rightarrow> False | Some b \<Rightarrow> b"
      obtain p1 s2 where conn: "getConnection w cname ?ups ?eml ?s1 = (p1, s2)"
        by (cases "getConnection w cname ?ups ?eml ?s1")
      from getConnection_frame [of w cname ?ups ?eml ?s1] conn obtain evs1 where
        evs1: "s2 = ?s1\<lparr>trace := trace ?s1 @ evs1\<rparr>" "submissions evs1 = []"
          "\<forall>r. p1 = Fulfilled r \<longrightarrow> files r = []"
        by auto
      obtain p2 s3 where fold: "foldl (postUserImport w polls) (p1, s2) fs = (p2, s3)"
        by (cases "foldl (postUserImport w polls) (p1, s2) fs")
      from foldl_postUserImport_frame [of w polls p1 s2 fs] fold obtain evs2 where
        evs2: "s3 = s2\<lparr>trace := trace s2 @ evs2\<rparr>" "prefix (submissions evs2) fs"
          "\<forall>st'. p2 = Fulfilled st' \<longrightarrow>
             (\<exists>st frs. p1 = Fulfilled st \<and> st' = st\<lparr>files := files st @ frs\<rparr> \<and> map name frs = fs \<and>
                submissions evs2 = fs)"
        by auto
      have run: "import w polls opts patterns s = thenP (p2, s3) (finish w)"
        using Some False Inr conn fold by (simp add: import_def Let_def)
      have out: "thenP (p2, s3) (finish w) = (p, s')"
        using run assms by simp
      have tr: "trace s' = trace s @ ?g # evs1 @ evs2"
      proof (cases p2)
        case (Fulfilled r2)
        then have "finish w r2 s3 = (p, s')" using out by simp
        then have "s' = snd (finish w r2 s3)" by simp
        then show ?thesis using finish_frame [of w r2 s3] evs1(1) evs2(1)
          by (simp add: trace_getManagementToken)
      next
        case (Rejected e)
        then show ?thesis using out evs1(1) evs2(1) by (auto simp: trace_getManagementToken)
      next
        case Pending
        then show ?thesis using out evs1(1) evs2(1) by (auto simp: trace_getManagementToken)
      qed
      have sub: "submissions (?g # evs1 @ evs2) = submissions evs2"
        using evs1(2) by simp
      have ful: "admitted w patterns = Inr (map name (files r)) \<and>
          submissions (?g # evs1 @ evs2) = map name (files r)" if "p = Fulfilled r" for r
      proof -
        from that out obtain r2 where r2: "p2 = Fulfilled r2" "fst (finish w r2 s3) = Fulfilled r"
          by (cases p2) auto
        with evs2(3) obtain st frs where
          st: "p1 = Fulfilled st" "r2 = st\<lparr>files := files st @ frs\<rparr>" "map name frs = fs"
            "submissions evs2 = fs"
          by blast
        have "files st = []" using evs1(3) st(1) by blast
        then have "map name (files r2) = fs" using st by simp
        moreover have "files r = files r2" using finish_frame [of w r2 s3] r2(2) by blast
        ultimately show ?thesis using Inr st(4) sub by simp
      qed
      show ?thesis
        using tr sub evs2(2) ful Inr by (intro exI [of _ "?g # evs1 @ evs2"]) simp
    qed
  qed
qed

lemma foldl_prefix_fulfilled:
  assumes "foldl (postUserImport w n) (p, s) fs = (Fulfilled r, s')"
  shows "\<exists>rk sk evs st frs. foldl (postUserImport w n) (p, s) (take k fs) = (Fulfilled rk, sk) \<and>
     sk = s\<lparr>trace := trace s @ evs\<rparr> \<and> submissions evs = take k fs \<and>
     p = Fulfilled st \<and> rk = st\<lparr>files := files st @ frs\<rparr> \<and> map name frs = take k fs"
proof -
  obtain pk sk where part: "foldl (postUserImport w n) (p, s) (take k fs) = (pk, sk)"
    by (cases "foldl (postUserImport w n) (p, s) (take k fs)")
  have "foldl (postUserImport w n) (p, s) (take k fs @ drop k fs) = (Fulfilled r, s')"
    using assms by simp
  then have rest: "foldl (postUserImport w n) (pk, sk) (drop k fs) = (Fulfilled r, s')"
    unfolding foldl_append part .
  have "\<exists>rk. pk = Fulfilled rk"
  proof (rule ccontr)
    assume "\<not> (\<exists>rk. pk = Fulfilled rk)"
    then have "foldl (postUserImport w n) (pk, sk) (drop k fs) = (pk, sk)"
      by (intro foldl_unfulfilled) blast
    with rest \<open>\<not> (\<exists>rk. pk = Fulfilled rk)\<close> show False by simp
  qed
  then obtain rk where rk: "pk = Fulfilled rk" by blast
  from foldl_postUserImport_frame [of w n p s "take k fs"] part rk
  show ?thesis by auto
qed

text \<open>
  A submission with the token at hand submits its file, whatever follows; so a file that
  the fold reaches is submitted, and with it all admitted files before it.
\<close>

lemma postUserImport_submits:
  assumes "tokenPromise s = Some (Fulfilled tok)"
  shows "\<exists>evs. snd (postUserImport w n (Fulfilled st, s) f) = s\<lparr>trace := trace s @ evs\<rparr> \<and>
           submissions evs = [f]"
proof -
  let ?req = "PostUsersImport f (fst (connection st)) (bool_toString (upsert st)) (bool_toString (email st))"
  let ?s1 = "s\<lparr>trace := trace s @ [Call (apiUrl s @ uri ?req) tok ?req]\<rparr>"
  show ?thesis
  proof (cases "rp_job w (length (trace s)) tok ?req")
    case (Inl e)
    then show ?thesis using assms
      by (intro exI [of _ "[Call (apiUrl s @ uri ?req) tok ?req]"])
         (simp add: postUserImport_def callApi_token)
  next
    case (Inr body)
    from waitAndCheck_frame [of w n f st body ?s1] obtain evs where
      evs: "snd (waitAndCheck w n f st body ?s1) = ?s1\<lparr>trace := trace ?s1 @ evs\<rparr>"
        "submissions evs = []"
      by blast
    have step: "postUserImport w n (Fulfilled st, s) f = waitAndCheck w n f st body ?s1"
      using assms Inr by (simp add: postUserImport_def callApi_token)
    show ?thesis
      unfolding step using evs
      by (intro exI [of _ "[Call (apiUrl s @ uri ?req) tok ?req] @ evs"]) simp
  qed
qed

lemma trace_finish_then: "trace (snd (thenP (p, s) (finish w))) = trace s"
  by (cases p) (simp_all add: finish_frame)

lemma import_reaches_file:
  assumes run: "import w polls opts patterns s = (p, s')"
    and conn: "opt_connection opts = Some cname" "cname \<noteq> []"
    and adm: "admitted w patterns = Inr fs"
    and k: "k < length fs"
    and reach: "foldl (postUserImport w polls)
        (getConnection w cname (case opt_upsert opts of None \<Rightarrow> False | Some b \<Rightarrow> b)
           (case opt_email opts of None \<Rightarrow> False | Some b \<Rightarrow> b) (getManagementToken w s))
        (take k fs) = (Fulfilled st, sk)"
  shows "prefix (take (Suc k) fs) (submissions (drop (length (trace s)) (trace s')))"
proof -
  let ?ups = "case opt_upsert opts of None \<Rightarrow> False | Some b \<Rightarrow> b"
  let ?eml = "case opt_email opts of None \<Rightarrow> False | Some b \<Rightarrow> b"
  let ?s1 = "getManagementToken w s"
  let ?g = "Grant (apiUrl s) ''create:users read:connections''"
  obtain p1 s2 where seed: "getConnection w cname ?ups ?eml ?s1 = (p1, s2)"
    by (cases "getConnection w cname ?ups ?eml ?s1")
  have "\<exists>st0. p1 = Fulfilled st0"
  proof (rule ccontr)
    assume "\<not> (\<exists>st0. p1 = Fulfilled st0)"
    then have "foldl (postUserImport w polls) (p1, s2) (take k fs) = (p1, s2)"
      by (intro foldl_unfulfilled) blast
    with reach seed \<open>\<not> (\<exists>st0. p1 = Fulfilled st0)\<close> show False by simp
  qed
  then obtain st0 where p1: "p1 = Fulfilled st0" by blast
  from getConnection_token [of w cname ?ups ?eml ?s1 st0] seed p1
  obtain tok where tok: "tokenPromise ?s1 = Some (Fulfilled tok)" by auto
  from getConnection_frame [of w cname ?ups ?eml ?s1] seed obtain evs1 where
    evs1: "s2 = ?s1\<lparr>trace := trace ?s1 @ evs1\<rparr>" "submissions evs1 = []"
    by auto
  from foldl_postUserImport_frame [of w polls p1 s2 "take k fs"] reach seed obtain evsk where
    evsk: "sk = s2\<lparr>trace := trace s2 @ evsk\<rparr>" "submissions evsk = take k fs"
    by auto
  have toksk: "tokenPromise sk = Some (Fulfilled tok)"
    using tok evs1(1) evsk(1) by simp
  obtain pf sf where post: "postUserImport w polls (Fulfilled st, sk) (fs ! k) = (pf, sf)"
    by (cases "postUserImport w polls (Fulfilled st, sk) (fs ! k)")
  from postUserImport_submits [OF toksk, of w polls st "fs ! k"] post obtain evsf where
    evsf: "sf = sk\<lparr>trace := trace sk @ evsf\<rparr>" "submissions evsf = [fs ! k]"
    by auto
  obtain p2 s3 where rest: "foldl (postUserImport w polls) (pf, sf) (drop (Suc k) fs) = (p2, s3)"
    by (cases "foldl (postUserImport w polls) (pf, sf) (drop (Suc k) fs)")
  from foldl_postUserImport_frame [of w polls pf sf "drop (Suc k) fs"] rest obtain evsr where
    evsr: "s3 = sf\<lparr>trace := trace sf @ evsr\<rparr>"
    by auto
  have split: "fs = take k fs @ fs ! k # drop (Suc k) fs"
    using k by (rule id_take_nth_drop)
  have "foldl (postUserImport w polls) (p1, s2) fs =
      foldl (postUserImport w polls) (p1, s2) (take k fs @ fs ! k # drop (Suc k) fs)"
    using split by simp
  also have "\<dots> = (p2, s3)"
    using reach seed post rest by simp
  finally have whole: "foldl (postUserImport w polls) (p1, s2) fs = (p2, s3)" .
  have "import w polls opts patterns s = thenP (p2, s3) (finish w)"
    using conn adm seed whole by (simp add: import_def Let_def)
  then have "thenP (p2, s3) (finish w) = (p, s')"
    using run by simp
  then have "s' = snd (thenP (p2, s3) (finish w))"
    by simp
  then have "trace s' = trace s3"
    by (simp only: trace_finish_then)
  then have tr: "trace s' = trace s @ ?g # evs1 @ evsk @ evsf @ evsr"
    using evsr evsf(1) evsk(1) evs1(1) by (simp add: trace_getManagementToken)
  have "submissions (drop (length (trace s)) (trace s')) =
      take k fs @ [fs ! k] @ submissions evsr"
    unfolding tr using evs1(2) evsk(2) evsf(2) by simp
  moreover have "take (Suc k) fs = take k fs @ [fs ! k]"
    using k by (rule take_Suc_conv_app_nth)
  ultimately show ?thesis by simp
qed

text \<open>
  The bound on the polls does not change an outcome: a run that is not pending under a
  bound is the same under every larger one.
\<close>

lemma waitAndCheck_more_polls:
  "fst (waitAndCheck w n f st r s) \<noteq> Pending \<Longrightarrow>
   waitAndCheck w (n + k) f st r s = waitAndCheck w n f st r s"
proof (induction n arbitrary: r s)
  case 0
  then show ?case
    by (cases r) (auto split: if_splits)
next
  case (Suc n)
  show ?case
  proof (cases r)
    case None
    then show ?thesis by simp
  next
    case (Some res)
    show ?thesis
    proof (cases "status res \<noteq> AUTH0_JOB_STATUS_PENDING")
      case True
      then show ?thesis using Some by simp
    next
      case False
      let ?c = "callApi (rp_job w) (GetJob (job_id res)) (sleep WAIT_INTERVAL s)"
      show ?thesis
      proof (cases "fst ?c")
        case (Fulfilled body)
        then obtain s2 where c: "?c = (Fulfilled body, s2)" by (cases ?c) auto
        have step: "waitAndCheck w (Suc m) f st r s = waitAndCheck w m f st body s2" for m
          using Some False c by simp
        have "fst (waitAndCheck w n f st body s2) \<noteq> Pending"
          using Suc.prems unfolding step .
        from Suc.IH [OF this] show ?thesis
          using step [of n] step [of "n + k"] by simp
      next
        case (Rejected e)
        then show ?thesis using Some False by (simp add: thenP_def)
      next
        case Pending
        then show ?thesis using Some False by (simp add: thenP_def)
      qed
    qed
  qed
qed

lemma postUserImport_more_polls:
  assumes "fst (postUserImport w n ps f) \<noteq> Pending"
  shows "postUserImport w (n + k) ps f = postUserImport w n ps f"
proof (cases "fst ps")
  case (Fulfilled stats)
  then obtain s where ps: "ps = (Fulfilled stats, s)" by (cases ps) auto
  let ?c = "callApi (rp_job w)
      (PostUsersImport f (fst (connection stats)) (bool_toString (upsert stats))
         (bool_toString (email stats))) s"
  show ?thesis
  proof (cases "fst ?c")
    case (Fulfilled body)
    then obtain s2 where c: "?c = (Fulfilled body, s2)" by (cases ?c) auto
    have step: "postUserImport w m ps f = waitAndCheck w m f stats body s2" for m
      using ps c by (simp add: postUserImport_def)
    show ?thesis
      using assms unfolding step by (rule waitAndCheck_more_polls)
  next
    case (Rejected e)
    then show ?thesis using ps by (simp add: postUserImport_def thenP_def)
  next
    case Pending
    then show ?thesis using ps by (simp add: postUserImport_def thenP_def)
  qed
next
  case (Rejected e)
  then show ?thesis by (simp add: postUserImport_def thenP_def)
next
  case Pending
  then show ?thesis by (simp add: postUserImport_def thenP_def)
qed

lemma foldl_more_polls:
  "fst (foldl (postUserImport w n) ps fs) \<noteq> Pending \<Longrightarrow>
   foldl (postUserImport w (n + k)) ps fs = foldl (postUserImport w n) ps fs"
proof (induction fs arbitrary: ps)
  case Nil
  show ?case by simp
next
  case (Cons f fs)
  have "fst (postUserImport w n ps f) \<noteq> Pending"
  proof
    assume "fst (postUserImport w n ps f) = Pending"
    then have "postUserImport w n ps f = (Pending, snd (postUserImport w n ps f))"
      by (metis prod.collapse)
    then have "foldl (postUserImport w n) (postUserImport w n ps f) fs =
        (Pending, snd (postUserImport w n ps f))"
      by (metis foldl_unfulfilled promise.distinct(3))
    with Cons.prems show False by simp
  qed
  then have "postUserImport w (n + k) ps f = postUserImport w n ps f"
    by (rule postUserImport_more_polls)
  then show ?case using Cons by simp
qed

lemma import_more_polls:
  assumes "fst (import w n opts patterns s) \<noteq> Pending"
  shows "import w (n + k) opts patterns s = import w n opts patterns s"
proof (cases "opt_connection opts")
  case None
  then show ?thesis by (simp add: import_def)
next
  case (Some cname)
  show ?thesis
  proof (cases "admitted w patterns")
    case (Inl e)
    then show ?thesis using Some by (simp add: import_def)
  next
    case (Inr fs)
    show ?thesis
    proof (cases "length cname = 0")
      case True
      then show ?thesis using Some by (simp add: import_def)
    next
      case False
      let ?seed = "getConnection w cname (case opt_upsert opts of None \<Rightarrow> False | Some b \<Rightarrow> b)
          (case opt_email opts of None \<Rightarrow> False | Some b \<Rightarrow> b) (getManagementToken w s)"
      have run: "import w m opts patterns s =
          thenP (foldl (postUserImport w m) ?seed fs) (finish w)" for m
        using Some Inr False by (simp add: import_def Let_def)
      have "fst (foldl (postUserImport w n) ?seed fs) \<noteq> Pending"
        using assms unfolding run by (auto simp: thenP_def)
      then have "foldl (postUserImport w (n + k)) ?seed fs = foldl (postUserImport w n) ?seed fs"
        by (rule foldl_more_polls)
      then show ?thesis unfolding run by simp
    qed
  qed
qed

text \<open>The definitions a run on the test double unfolds to.\<close>

lemmas run_defs = import_def demo_world_def demo_options_def demo_importer_def Auth0Importer_def
  getManagementToken_def admitted_def readFiles_def flatten_def checkFileSize_def MAX_FILE_SIZE_def
  getConnection_def callApi_token callApi_no_token validateConnections_def conn_db_def postUserImport_def
  bool_toString_def AUTH0_JOB_STATUS_PENDING_def sleep_def WAIT_INTERVAL_def finish_def
  resetTokenTimeout_def RENEW_INTERVAL_def MS_IN_SEC_def fireTimer_def

section \<open>Credential renewal\<close>

text \<open>
  C9: after a successful token response the renewal timer is scheduled with the delay
  \<open>min ((expires_in - 60) * 1000) 2147483647\<close> milliseconds, which never exceeds the largest
  timer duration; for \<open>expires_in = 120\<close> that is 60 seconds, and from
  \<open>expires_in = 2147544\<close> on it is the cap.
\<close>

theorem renewal_delay:
  assumes "clientCredentialsGrant w (length (trace s)) = Inr response"
  shows "timers (getManagementToken w s) =
           timers s @ [(nextTimer s, min ((expires_in response - 60) * 1000) 2147483647)] \<and>
         tokenTimeout (getManagementToken w s) = Some (nextTimer s) \<and>
         snd (last (timers (getManagementToken w s))) \<le> 2147483647 \<and>
         (expires_in response = 120 \<longrightarrow> snd (last (timers (getManagementToken w s))) = 60 * 1000) \<and>
         (2147544 \<le> expires_in response \<longrightarrow>
            snd (last (timers (getManagementToken w s))) = 2147483647)"
  using assms by (simp add: getManagementToken_def RENEW_INTERVAL_def MS_IN_SEC_def)

theorem renewal_delay_witness:
  "timers (getManagementToken demo_world demo_importer) = [(0, 60000)] \<and>
   timers (getManagementToken
      (demo_world\<lparr>clientCredentialsGrant := \<lambda>n. Inr \<lparr>access_token = ''tok'', expires_in = 315360000\<rparr>\<rparr>)
      demo_importer) = [(0, 2147483647)]"
proof -
  let ?long = "demo_world\<lparr>clientCredentialsGrant :=
      \<lambda>n. Inr \<lparr>access_token = ''tok'', expires_in = 315360000\<rparr>\<rparr>"
  have short: "clientCredentialsGrant demo_world (length (trace demo_importer)) =
      Inr \<lparr>access_token = ''tok'', expires_in = 120\<rparr>"
    by (simp add: demo_world_def)
  have long: "clientCredentialsGrant ?long (length (trace demo_importer)) =
      Inr \<lparr>access_token = ''tok'', expires_in = 315360000\<rparr>"
    by simp
  show ?thesis
    using renewal_delay [OF short] renewal_delay [OF long]
    by (simp add: demo_importer_def Auth0Importer_def)
qed

section \<open>Connection resolution\<close>

text \<open>
  C6: once the token is there and the listing has arrived, \<open>getConnection\<close> rejects under
  three conditions, checked in this order: the listing is null or empty (not found), the
  first connection's strategy is not \<open>auth0\<close> (not a database connection), the client id is
  not among its enabled clients (not enabled for client). Otherwise it is fulfilled with
  the start time read then, the first connection's id and name, the two flags as passed
  and no files.
\<close>

theorem connection_resolution:
  assumes "tokenPromise s = Some (Fulfilled tok)"
    and "rp_connections w (length (trace s)) tok (GetConnections cname) = Inr listing"
  shows "fst (getConnection w cname ups eml s) =
     (if listing = None \<or> listing = Some []
      then Rejected (Error (''Connection '' @ cname @ '' was not found''))
      else if strategy (hd (the listing)) \<noteq> ''auth0''
      then Rejected (Error (''Connection '' @ cname @ '' is not a database connection''))
      else if clientId s \<notin> set (enabled_clients (hd (the listing)))
      then Rejected (Error (''Connection '' @ cname @ '' is not enabled for client '' @ clientId s))
      else Fulfilled \<lparr>startTime = now w (Suc (length (trace s))),
             connection = (conn_id (hd (the listing)), conn_name (hd (the listing))),
             upsert = ups, email = eml, files = [], endTime = None\<rparr>)"
  using assms
  by (auto simp: getConnection_def callApi_def validateConnections_def split: option.splits list.splits)

theorem connection_resolution_witness:
  "fst (getConnection demo_world ''db'' False True (getManagementToken demo_world demo_importer)) =
     Fulfilled \<lparr>startTime = 2000, connection = (''con_1'', ''db''), upsert = False, email = True,
       files = [], endTime = None\<rparr> \<and>
   fst (getConnection demo_world ''nope'' False True (getManagementToken demo_world demo_importer)) =
     Rejected (Error ''Connection nope was not found'') \<and>
   fst (getConnection demo_world ''db'' False True
          (getManagementToken demo_world (Auth0Importer ''intruder'' ''t.auth0.com''))) =
     Rejected (Error ''Connection db is not enabled for client intruder'')"
proof -
  let ?s = "getManagementToken demo_world demo_importer"
  let ?i = "getManagementToken demo_world (Auth0Importer ''intruder'' ''t.auth0.com'')"
  have tok: "tokenPromise ?s = Some (Fulfilled ''tok'')" "tokenPromise ?i = Some (Fulfilled ''tok'')"
    by (simp_all add: run_defs)
  have db: "rp_connections demo_world (length (trace ?s)) ''tok'' (GetConnections ''db'') =
      Inr (Some [conn_db])"
    and nope: "rp_connections demo_world (length (trace ?s)) ''tok'' (GetConnections ''nope'') =
      Inr (Some [])"
    and db': "rp_connections demo_world (length (trace ?i)) ''tok'' (GetConnections ''db'') =
      Inr (Some [conn_db])"
    by (simp_all add: demo_world_def)
  show ?thesis
    using connection_resolution [OF tok(1) db, of False True]
      connection_resolution [OF tok(1) nope, of False True]
      connection_resolution [OF tok(2) db', of False True]
    by (simp add: run_defs)
qed

text \<open>
  C10: of a listing with several connections only the first is looked at: the outcome is
  the one for the listing cut down to its first element, and a fulfilled outcome carries
  the first element's id and name.
\<close>

theorem first_connection_only:
  "validateConnections cname cid ups eml date (Some (c0 # rest)) =
     validateConnections cname cid ups eml date (Some [c0]) \<and>
   (\<forall>r. validateConnections cname cid ups eml date (Some (c0 # rest)) = Fulfilled r \<longrightarrow>
      connection r = (conn_id c0, conn_name c0)) \<and>
   (tokenPromise s = Some (Fulfilled tok) \<and>
    rp_connections w (length (trace s)) tok (GetConnections cname) = Inr (Some (c0 # rest)) \<longrightarrow>
      fst (getConnection w cname ups eml s) =
        validateConnections cname (clientId s) ups eml (now w (Suc (length (trace s)))) (Some [c0]))"
  by (auto simp: validateConnections_def getConnection_def callApi_def)

theorem first_connection_only_witness:
  "validateConnections ''db'' ''cid'' False False 0 (Some [conn_db\<lparr>strategy := ''ad''\<rparr>, conn_db]) =
     Rejected (Error ''Connection db is not a database connection'') \<and>
   validateConnections ''db'' ''cid'' False False 0 (Some [conn_db]) =
     Fulfilled \<lparr>startTime = 0, connection = (''con_1'', ''db''), upsert = False, email = False,
       files = [], endTime = None\<rparr> \<and>
   fst (getConnection (demo_world\<lparr>rp_connections := \<lambda>n tok req. Inr (Some [conn_db\<lparr>strategy := ''ad''\<rparr>, conn_db])\<rparr>)
          ''db'' False False (getManagementToken demo_world demo_importer)) =
     Rejected (Error ''Connection db is not a database connection'')"
proof -
  let ?two = "demo_world\<lparr>rp_connections := \<lambda>n tok req. Inr (Some [conn_db\<lparr>strategy := ''ad''\<rparr>, conn_db])\<rparr>"
  let ?s = "getManagementToken demo_world demo_importer"
  have listing: "tokenPromise ?s = Some (Fulfilled ''tok'') \<and>
      rp_connections ?two (length (trace ?s)) ''tok'' (GetConnections ''db'') =
        Inr (Some (conn_db\<lparr>strategy := ''ad''\<rparr> # [conn_db]))"
    by (simp add: run_defs)
  from first_connection_only [of "''db''" "''cid''" False False 0 "conn_db\<lparr>strategy := ''ad''\<rparr>"
      "[conn_db]" ?s "''tok''" ?two] listing
  have "validateConnections ''db'' ''cid'' False False 0 (Some [conn_db\<lparr>strategy := ''ad''\<rparr>, conn_db]) =
      validateConnections ''db'' ''cid'' False False 0 (Some [conn_db\<lparr>strategy := ''ad''\<rparr>])"
    and "fst (getConnection ?two ''db'' False False ?s) =
      validateConnections ''db'' (clientId ?s) False False (now ?two (Suc (length (trace ?s))))
        (Some [conn_db\<lparr>strategy := ''ad''\<rparr>])"
    by blast+
  then show ?thesis
    by (simp add: validateConnections_def conn_db_def)
qed

section \<open>Polling\<close>

text \<open>
  C2: the polling step, with the token at hand. On a status \<open>pending\<close> it waits 5000 ms,
  fetches the status of the job named in the response and goes on with the answer. On any
  other status it fetches the error listing of that job once; when the listing arrives it
  appends one entry (the file's name, the status payload, the errors) to the files and is
  fulfilled with the stats. For the responses pending, pending, not pending, the calls are
  exactly: wait, fetch status, wait, fetch status, fetch errors.
\<close>

theorem polling_step:
  assumes "tokenPromise s = Some (Fulfilled tok)"
  shows
    "(status res = ''pending'' \<longrightarrow>
        waitAndCheck w (Suc n) f st (Some res) s =
          thenP (callApi (rp_job w) (GetJob (job_id res)) (sleep 5000 s)) (waitAndCheck w n f st)) \<and>
     (status res' \<noteq> ''pending'' \<longrightarrow>
        snd (waitAndCheck w n f st (Some res') s) =
          s\<lparr>trace := trace s @
            [Call (apiUrl s @ ''jobs/'' @ job_id res' @ ''/errors'') tok (GetJobErrors (job_id res'))]\<rparr> \<and>
        (\<forall>errs. rp_errors w (length (trace s)) tok (GetJobErrors (job_id res')) = Inr (Some errs) \<longrightarrow>
           fst (waitAndCheck w n f st (Some res') s) =
             Fulfilled (st\<lparr>files := files st @ [\<lparr>name = f, result = res', errors = errs\<rparr>]\<rparr>))) \<and>
     (status r0 = ''pending'' \<and>
      rp_job w (Suc (length (trace s))) tok (GetJob (job_id r0)) = Inr (Some r1) \<and>
      status r1 = ''pending'' \<and>
      rp_job w (Suc (Suc (Suc (length (trace s))))) tok (GetJob (job_id r1)) = Inr (Some r2) \<and>
      status r2 \<noteq> ''pending'' \<and>
      rp_errors w (Suc (Suc (Suc (Suc (length (trace s)))))) tok (GetJobErrors (job_id r2)) =
        Inr (Some errs2) \<longrightarrow>
        waitAndCheck w (Suc (Suc n)) f st (Some r0) s =
          (Fulfilled (st\<lparr>files := files st @ [\<lparr>name = f, result = r2, errors = errs2\<rparr>]\<rparr>),
           s\<lparr>trace := trace s @
             [Sleep 5000,
              Call (apiUrl s @ ''jobs/'' @ job_id r0) tok (GetJob (job_id r0)),
              Sleep 5000,
              Call (apiUrl s @ ''jobs/'' @ job_id r1) tok (GetJob (job_id r1)),
              Call (apiUrl s @ ''jobs/'' @ job_id r2 @ ''/errors'') tok (GetJobErrors (job_id r2))]\<rparr>))"
proof (intro conjI impI)
  assume "status res = ''pending''"
  then show "waitAndCheck w (Suc n) f st (Some res) s =
      thenP (callApi (rp_job w) (GetJob (job_id res)) (sleep 5000 s)) (waitAndCheck w n f st)"
    by (simp add: AUTH0_JOB_STATUS_PENDING_def WAIT_INTERVAL_def)
next
  assume "status res' \<noteq> ''pending''"
  then show "snd (waitAndCheck w n f st (Some res') s) =
      s\<lparr>trace := trace s @
        [Call (apiUrl s @ ''jobs/'' @ job_id res' @ ''/errors'') tok (GetJobErrors (job_id res'))]\<rparr>"
    using assms
    by (simp add: AUTH0_JOB_STATUS_PENDING_def callApi_def thenP_def split: sum.splits option.splits)
next
  assume "status res' \<noteq> ''pending''"
  then show "\<forall>errs. rp_errors w (length (trace s)) tok (GetJobErrors (job_id res')) = Inr (Some errs) \<longrightarrow>
      fst (waitAndCheck w n f st (Some res') s) =
        Fulfilled (st\<lparr>files := files st @ [\<lparr>name = f, result = res', errors = errs\<rparr>]\<rparr>)"
    using assms by (simp add: AUTH0_JOB_STATUS_PENDING_def callApi_def)
next
  assume h: "status r0 = ''pending'' \<and>
      rp_job w (Suc (length (trace s))) tok (GetJob (job_id r0)) = Inr (Some r1) \<and>
      status r1 = ''pending'' \<and>
      rp_job w (Suc (Suc (Suc (length (trace s))))) tok (GetJob (job_id r1)) = Inr (Some r2) \<and>
      status r2 \<noteq> ''pending'' \<and>
      rp_errors w (Suc (Suc (Suc (Suc (length (trace s)))))) tok (GetJobErrors (job_id r2)) =
        Inr (Some errs2)"
  let ?s1 = "s\<lparr>trace := trace s @
      [Sleep 5000, Call (apiUrl s @ ''jobs/'' @ job_id r0) tok (GetJob (job_id r0))]\<rparr>"
  let ?s2 = "?s1\<lparr>trace := trace ?s1 @
      [Sleep 5000, Call (apiUrl s @ ''jobs/'' @ job_id r1) tok (GetJob (job_id r1))]\<rparr>"
  have first: "waitAndCheck w (Suc (Suc n)) f st (Some r0) s = waitAndCheck w (Suc n) f st (Some r1) ?s1"
    using h assms by (simp add: AUTH0_JOB_STATUS_PENDING_def WAIT_INTERVAL_def callApi_def sleep_def)
  have second: "waitAndCheck w (Suc n) f st (Some r1) ?s1 = waitAndCheck w n f st (Some r2) ?s2"
    using h assms by (simp add: AUTH0_JOB_STATUS_PENDING_def WAIT_INTERVAL_def callApi_def sleep_def)
  have third: "waitAndCheck w n f st (Some r2) ?s2 =
      (Fulfilled (st\<lparr>files := files st @ [\<lparr>name = f, result = r2, errors = errs2\<rparr>]\<rparr>),
       ?s2\<lparr>trace := trace ?s2 @
         [Call (apiUrl s @ ''jobs/'' @ job_id r2 @ ''/errors'') tok (GetJobErrors (job_id r2))]\<rparr>)"
    using h assms by (simp add: AUTH0_JOB_STATUS_PENDING_def callApi_def)
  show "waitAndCheck w (Suc (Suc n)) f st (Some r0) s =
      (Fulfilled (st\<lparr>files := files st @ [\<lparr>name = f, result = r2, errors = errs2\<rparr>]\<rparr>),
       s\<lparr>trace := trace s @
         [Sleep 5000,
          Call (apiUrl s @ ''jobs/'' @ job_id r0) tok (GetJob (job_id r0)),
          Sleep 5000,
          Call (apiUrl s @ ''jobs/'' @ job_id r1) tok (GetJob (job_id r1)),
          Call (apiUrl s @ ''jobs/'' @ job_id r2 @ ''/errors'') tok (GetJobErrors (job_id r2))]\<rparr>)"
    unfolding first second third by simp
qed

theorem polling_step_witness:
  "waitAndCheck demo_world (Suc (Suc 0)) ''a.json'' demo_stats (Some pending_job) demo_submitted =
     (Fulfilled (demo_stats\<lparr>files :=
         [\<lparr>name = ''a.json'', result = pending_job\<lparr>status := ''completed''\<rparr>, errors = Some []\<rparr>]\<rparr>),
      demo_submitted\<lparr>trace := trace demo_submitted @
        [Sleep 5000,
         Call ''https://t.auth0.com/api/v2/jobs/a.json'' ''tok'' (GetJob ''a.json''),
         Sleep 5000,
         Call ''https://t.auth0.com/api/v2/jobs/a.json'' ''tok'' (GetJob ''a.json''),
         Call ''https://t.auth0.com/api/v2/jobs/a.json/errors'' ''tok'' (GetJobErrors ''a.json'')]\<rparr>) \<and>
   delays (drop 3 (trace (snd (waitAndCheck demo_world (Suc (Suc 0)) ''a.json'' demo_stats
     (Some pending_job) demo_submitted)))) = [5000, 5000] \<and>
   status_fetches (drop 3 (trace (snd (waitAndCheck demo_world (Suc (Suc 0)) ''a.json'' demo_stats
     (Some pending_job) demo_submitted)))) = [''a.json'', ''a.json''] \<and>
   error_fetches (drop 3 (trace (snd (waitAndCheck demo_world (Suc (Suc 0)) ''a.json'' demo_stats
     (Some pending_job) demo_submitted)))) = [''a.json'']"
proof -
  let ?done = "pending_job\<lparr>status := ''completed''\<rparr>"
  have submitted: "demo_submitted =
      demo_importer\<lparr>tokenPromise := Some (Fulfilled ''tok''), tokenTimeout := Some 0,
        timers := [(0, 60000)], nextTimer := 1,
        trace := [Grant ''https://t.auth0.com/api/v2/'' ''create:users read:connections'',
                  Call ''https://t.auth0.com/api/v2/connections'' ''tok'' (GetConnections ''db''),
                  Call ''https://t.auth0.com/api/v2/jobs/users-imports'' ''tok''
                    (PostUsersImport ''a.json'' ''con_1'' ''false'' ''true'')]\<rparr>"
    by (simp add: demo_submitted_def run_defs)
  have tok: "tokenPromise demo_submitted = Some (Fulfilled ''tok'')"
    by (simp add: submitted)
  have answers: "status pending_job = ''pending'' \<and>
      rp_job demo_world (Suc (length (trace demo_submitted))) ''tok'' (GetJob (job_id pending_job)) =
        Inr (Some pending_job) \<and>
      status pending_job = ''pending'' \<and>
      rp_job demo_world (Suc (Suc (Suc (length (trace demo_submitted))))) ''tok''
        (GetJob (job_id pending_job)) = Inr (Some ?done) \<and>
      status ?done \<noteq> ''pending'' \<and>
      rp_errors demo_world (Suc (Suc (Suc (Suc (length (trace demo_submitted)))))) ''tok''
        (GetJobErrors (job_id ?done)) = Inr (Some (Some []))"
    by (simp add: submitted pending_job_def demo_world_def demo_importer_def Auth0Importer_def)
  from polling_step [OF tok, of pending_job demo_world 0 "''a.json''" demo_stats ?done
      pending_job pending_job ?done "Some []"] answers
  have run: "waitAndCheck demo_world (Suc (Suc 0)) ''a.json'' demo_stats (Some pending_job) demo_submitted =
      (Fulfilled (demo_stats\<lparr>files := files demo_stats @
          [\<lparr>name = ''a.json'', result = ?done, errors = Some []\<rparr>]\<rparr>),
       demo_submitted\<lparr>trace := trace demo_submitted @
         [Sleep 5000,
          Call (apiUrl demo_submitted @ ''jobs/'' @ job_id pending_job) ''tok'' (GetJob (job_id pending_job)),
          Sleep 5000,
          Call (apiUrl demo_submitted @ ''jobs/'' @ job_id pending_job) ''tok'' (GetJob (job_id pending_job)),
          Call (apiUrl demo_submitted @ ''jobs/'' @ job_id ?done @ ''/errors'') ''tok''
            (GetJobErrors (job_id ?done))]\<rparr>)"
    by blast
  show ?thesis
    unfolding run
    by (simp add: submitted pending_job_def demo_stats_def demo_importer_def Auth0Importer_def)
qed

section \<open>File resolver\<close>

lemma promise_all_Inr: "promise_all (map Inr xs) = Inr xs"
  by (induction xs) simp_all

lemma foldl_append_concat: "foldl (\<lambda>f current. f @ current) acc xss = acc @ concat xss"
  by (induction xss arbitrary: acc) simp_all

lemma flatten_concat: "flatten xss = concat xss"
  by (simp add: flatten_def foldl_append_concat)

lemma count_list_concat: "count_list (concat xss) x = sum_list (map (\<lambda>xs. count_list xs x) xss)"
  by (induction xss) simp_all

lemma count_list_filter:
  "count_list (filter P xs) x = (if P x then count_list xs x else 0)"
  by (induction xs) simp_all

lemma filterE_Inr:
  "filterE p xs = Inr ys \<Longrightarrow> ys = filter (\<lambda>x. p x = Inr True) xs \<and> (\<forall>x\<in>set xs. \<exists>b. p x = Inr b)"
  by (induction xs arbitrary: ys) (auto split: sum.splits if_splits)

lemma readFiles_glob: "readFiles w = glob w"
  by (rule ext) (simp add: readFiles_def split: sum.splits)

text \<open>
  C5, amended: when every pattern expands, the resolver's list is the concatenation of the
  patterns' match lists in input order; a pattern with no match adds nothing and is no
  error; duplicates are kept, so a path occurs as often as the patterns match it. The
  admitted list is that concatenation filtered by size. The files a run submits are a
  prefix of the admitted list, and the whole of it when the run is fulfilled: then a path
  that passes the size check is submitted once per match, and a path that fails it never.
  The list is not deduplicated.
\<close>

theorem file_resolver_keeps_duplicates:
  assumes "map (glob w) pats = map Inr fss"
  shows "promise_all (map (readFiles w) pats) = Inr fss \<and>
         flatten fss = concat fss \<and>
         count_list (flatten fss) f = sum_list (map (\<lambda>fs. count_list fs f) fss) \<and>
         (\<forall>fs. admitted w (Some pats) = Inr fs \<longrightarrow>
            fs = filter (\<lambda>x. checkFileSize w x = Inr True) (concat fss) \<and>
            (\<forall>polls opts s.
               prefix (submissions (drop (length (trace s)) (trace (snd (import w polls opts (Some pats) s))))) fs \<and>
               (\<forall>r. fst (import w polls opts (Some pats) s) = Fulfilled r \<longrightarrow>
                  submissions (drop (length (trace s)) (trace (snd (import w polls opts (Some pats) s)))) = fs \<and>
                  count_list (submissions (drop (length (trace s))
                      (trace (snd (import w polls opts (Some pats) s))))) f =
                    (if checkFileSize w f = Inr True
                     then sum_list (map (\<lambda>fs. count_list fs f) fss) else 0))))"
proof -
  have all: "promise_all (map (readFiles w) pats) = Inr fss"
    using assms by (simp add: readFiles_glob promise_all_Inr)
  have adm: "fs = filter (\<lambda>x. checkFileSize w x = Inr True) (concat fss)"
    if "admitted w (Some pats) = Inr fs" for fs
    using that all by (auto simp: admitted_def flatten_concat dest: filterE_Inr)
  have runs: "prefix (submissions (drop (length (trace s)) (trace (snd (import w polls opts (Some pats) s))))) fs \<and>
      (\<forall>r. fst (import w polls opts (Some pats) s) = Fulfilled r \<longrightarrow>
         submissions (drop (length (trace s)) (trace (snd (import w polls opts (Some pats) s)))) = fs \<and>
         count_list (submissions (drop (length (trace s))
             (trace (snd (import w polls opts (Some pats) s))))) f =
           (if checkFileSize w f = Inr True
            then sum_list (map (\<lambda>fs. count_list fs f) fss) else 0))"
    if a: "admitted w (Some pats) = Inr fs" for fs polls opts s
  proof -
    let ?run = "import w polls opts (Some pats) s"
    have "?run = (fst ?run, snd ?run)" by simp
    from import_frame [OF this] a obtain evs where
      evs: "trace (snd ?run) = trace s @ evs" "prefix (submissions evs) fs"
        "\<forall>r. fst ?run = Fulfilled r \<longrightarrow> submissions evs = fs"
      by auto
    have new: "drop (length (trace s)) (trace (snd ?run)) = evs"
      using evs(1) by simp
    have "count_list fs f =
        (if checkFileSize w f = Inr True then sum_list (map (\<lambda>fs. count_list fs f) fss) else 0)"
      unfolding adm [OF a] by (simp add: count_list_filter count_list_concat)
    then show ?thesis
      unfolding new using evs(2,3) by auto
  qed
  have flat: "flatten fss = concat fss"
    by (rule flatten_concat)
  have count: "count_list (flatten fss) f = sum_list (map (\<lambda>fs. count_list fs f) fss)"
    by (simp add: flatten_concat count_list_concat)
  show ?thesis
    using all flat count adm runs by blast
qed

theorem file_resolver_keeps_duplicates_witness:
  "admitted demo_world (Some [''a.json'', ''none*'', ''*.json'']) = Inr [''a.json'', ''a.json'', ''b.json''] \<and>
   count_list (flatten [[''a.json''], [], [''a.json'', ''b.json'']]) ''a.json'' = 2 \<and>
   count_list (submissions (trace (snd (import demo_world (Suc (Suc 0)) demo_options
     (Some [''a.json'', ''none*'', ''*.json'']) demo_importer)))) ''a.json'' = 2 \<and>
   count_list (flatten [[''big.json''], [''big.json'']]) ''big.json'' = 2 \<and>
   submissions (trace (snd (import demo_world (Suc (Suc 0)) demo_options
     (Some [''big*'', ''big*'']) demo_importer))) = []"
proof -
  let ?pats = "[''a.json'', ''none*'', ''*.json'']"
  let ?run = "import demo_world (Suc (Suc 0)) demo_options (Some ?pats) demo_importer"
  let ?bigs = "import demo_world (Suc (Suc 0)) demo_options (Some [''big*'', ''big*'']) demo_importer"
  have globs: "map (glob demo_world) ?pats = map Inr [[''a.json''], [], [''a.json'', ''b.json'']]"
    and globs': "map (glob demo_world) [''big*'', ''big*''] = map Inr [[''big.json''], [''big.json'']]"
    by (simp_all add: demo_world_def)
  have adm: "admitted demo_world (Some ?pats) = Inr [''a.json'', ''a.json'', ''b.json'']"
    and adm': "admitted demo_world (Some [''big*'', ''big*'']) = Inr []"
    by (simp_all add: run_defs)
  have resolved: "\<exists>r. fst ?run = Fulfilled r"
    by (simp add: run_defs)
  have start: "trace demo_importer = []"
    by (simp add: demo_importer_def Auth0Importer_def)
  have passes: "checkFileSize demo_world ''a.json'' = Inr True"
    by (simp add: checkFileSize_def MAX_FILE_SIZE_def demo_world_def)
  from file_resolver_keeps_duplicates [OF globs, of "''a.json''"] adm resolved
  have twice: "count_list (submissions (drop (length (trace demo_importer)) (trace (snd ?run)))) ''a.json'' =
      (if checkFileSize demo_world ''a.json'' = Inr True
       then sum_list (map (\<lambda>fs. count_list fs ''a.json'') [[''a.json''], [], [''a.json'', ''b.json'']])
       else 0)"
    and listed: "count_list (flatten [[''a.json''], [], [''a.json'', ''b.json'']]) ''a.json'' =
      sum_list (map (\<lambda>fs. count_list fs ''a.json'') [[''a.json''], [], [''a.json'', ''b.json'']])"
    by blast+
  from file_resolver_keeps_duplicates [OF globs', of "''big.json''"] adm'
  have never: "prefix (submissions (drop (length (trace demo_importer)) (trace (snd ?bigs)))) []"
    and listed': "count_list (flatten [[''big.json''], [''big.json'']]) ''big.json'' =
      sum_list (map (\<lambda>fs. count_list fs ''big.json'') [[''big.json''], [''big.json'']])"
    by blast+
  show ?thesis
    using adm twice listed never listed' passes start by simp
qed

text \<open>
  C5 as stated fails: \<open>a.json\<close>, matched by both patterns, is listed twice and submitted twice.
\<close>

theorem file_resolver_dedup_counterexample:
  "admitted demo_world (Some [''a.json'', ''*.json'']) = Inr [''a.json'', ''a.json'', ''b.json''] \<and>
   \<not> distinct [''a.json'', ''a.json'', ''b.json''] \<and>
   submissions (trace (snd (import demo_world (Suc (Suc 0)) demo_options
      (Some [''a.json'', ''*.json'']) demo_importer))) = [''a.json'', ''a.json'', ''b.json'']"
  by (simp add: run_defs)

section \<open>The run\<close>

text \<open>
  C3: when \<open>import\<close> is fulfilled, the names of the entries of \<open>files\<close> are the admitted
  files in admission order, as many entries as admitted files, and the files submitted
  during the run are the same list: one submission per entry and no entry without one. At
  every intermediate point of the fold, after \<open>k\<close> files, the entries are the first \<open>k\<close>
  admitted files, never more than the admitted files.
\<close>

theorem stats_follow_admission:
  assumes "import w polls opts patterns s = (Fulfilled r, s')"
  shows "\<exists>fs cname.
     admitted w patterns = Inr fs \<and> opt_connection opts = Some cname \<and>
     map name (files r) = fs \<and> length (files r) = length fs \<and>
     submissions (drop (length (trace s)) (trace s')) = fs \<and>
     (\<forall>k\<le>length fs. \<exists>rk sk.
        foldl (postUserImport w polls)
          (getConnection w cname (case opt_upsert opts of None \<Rightarrow> False | Some b \<Rightarrow> b)
             (case opt_email opts of None \<Rightarrow> False | Some b \<Rightarrow> b) (getManagementToken w s))
          (take k fs) = (Fulfilled rk, sk) \<and>
        map name (files rk) = take k fs \<and>
        submissions (drop (length (trace s)) (trace sk)) = take k fs \<and>
        length (files rk) \<le> length fs)"
proof -
  let ?ups = "case opt_upsert opts of None \<Rightarrow> False | Some b \<Rightarrow> b"
  let ?eml = "case opt_email opts of None \<Rightarrow> False | Some b \<Rightarrow> b"
  let ?s1 = "getManagementToken w s"
  let ?fs = "map name (files r)"
  from import_frame [OF assms] obtain evs where
    evs: "trace s' = trace s @ evs" "admitted w patterns = Inr ?fs" "submissions evs = ?fs"
    by blast
  obtain cname where cname: "opt_connection opts = Some cname" "length cname \<noteq> 0"
    using assms by (auto simp: import_def split: option.splits if_splits)
  obtain p1 s2 where conn: "getConnection w cname ?ups ?eml ?s1 = (p1, s2)"
    by (cases "getConnection w cname ?ups ?eml ?s1")
  from getConnection_frame [of w cname ?ups ?eml ?s1] conn obtain evs1 where
    evs1: "s2 = ?s1\<lparr>trace := trace ?s1 @ evs1\<rparr>" "submissions evs1 = []"
      "\<forall>r. p1 = Fulfilled r \<longrightarrow> files r = []"
    by auto
  have run: "thenP (foldl (postUserImport w polls) (p1, s2) ?fs) (finish w) = (Fulfilled r, s')"
    using assms cname evs(2) conn by (simp add: import_def Let_def)
  obtain p2 s3 where fold: "foldl (postUserImport w polls) (p1, s2) ?fs = (p2, s3)"
    by (cases "foldl (postUserImport w polls) (p1, s2) ?fs")
  obtain r2 where r2: "p2 = Fulfilled r2"
    using run fold by (cases p2) auto
  have inter: "\<exists>rk sk. foldl (postUserImport w polls) (p1, s2) (take k ?fs) = (Fulfilled rk, sk) \<and>
      map name (files rk) = take k ?fs \<and>
      submissions (drop (length (trace s)) (trace sk)) = take k ?fs \<and>
      length (files rk) \<le> length ?fs" for k
  proof -
    from foldl_prefix_fulfilled [OF fold [unfolded r2], of k] obtain rk sk evsk st frs where
      k: "foldl (postUserImport w polls) (p1, s2) (take k ?fs) = (Fulfilled rk, sk)"
        "sk = s2\<lparr>trace := trace s2 @ evsk\<rparr>" "submissions evsk = take k ?fs"
        "p1 = Fulfilled st" "rk = st\<lparr>files := files st @ frs\<rparr>" "map name frs = take k ?fs"
      by blast
    have "files st = []" using evs1(3) k(4) by blast
    then have names: "map name (files rk) = take k ?fs" using k(5,6) by simp
    have "trace sk = trace s @ Grant (apiUrl s) ''create:users read:connections'' # evs1 @ evsk"
      using k(2) evs1(1) by (simp add: trace_getManagementToken)
    then have "submissions (drop (length (trace s)) (trace sk)) = take k ?fs"
      using evs1(2) k(3) by simp
    moreover have "length (files rk) \<le> length ?fs"
      using arg_cong [OF names, of length] by simp
    ultimately show ?thesis using k(1) names by blast
  qed
  show ?thesis
    using evs cname(1) inter conn
    by (intro exI [of _ ?fs] exI [of _ cname]) simp
qed

theorem stats_follow_admission_witness:
  "fst (import demo_world (Suc (Suc 0)) demo_options (Some [''big*'', ''*.json'']) demo_importer) =
     Fulfilled (demo_stats\<lparr>files :=
       [\<lparr>name = ''a.json'', result = \<lparr>job_id = ''a.json'', status = ''completed'', job_summary = None\<rparr>,
           errors = Some []\<rparr>,
        \<lparr>name = ''b.json'', result = \<lparr>job_id = ''b.json'', status = ''completed'', job_summary = None\<rparr>,
           errors = Some [''e1'', ''e2'']\<rparr>],
       endTime := Some 12000\<rparr>) \<and>
   admitted demo_world (Some [''big*'', ''*.json'']) = Inr [''a.json'', ''b.json''] \<and>
   submissions (trace (snd (import demo_world (Suc (Suc 0)) demo_options
     (Some [''big*'', ''*.json'']) demo_importer))) = [''a.json'', ''b.json'']"
proof -
  let ?run = "import demo_world (Suc (Suc 0)) demo_options (Some [''big*'', ''*.json'']) demo_importer"
  let ?r = "demo_stats\<lparr>files :=
       [\<lparr>name = ''a.json'', result = \<lparr>job_id = ''a.json'', status = ''completed'', job_summary = None\<rparr>,
           errors = Some []\<rparr>,
        \<lparr>name = ''b.json'', result = \<lparr>job_id = ''b.json'', status = ''completed'', job_summary = None\<rparr>,
           errors = Some [''e1'', ''e2'']\<rparr>],
       endTime := Some 12000\<rparr>"
  have outcome: "fst ?run = Fulfilled ?r"
    by (simp add: run_defs demo_stats_def)
  then have run: "?run = (Fulfilled ?r, snd ?run)"
    by (metis prod.collapse)
  have start: "trace demo_importer = []"
    by (simp add: demo_importer_def Auth0Importer_def)
  from stats_follow_admission [OF run] obtain fs where
    fs: "admitted demo_world (Some [''big*'', ''*.json'']) = Inr fs" "map name (files ?r) = fs"
      "submissions (drop (length (trace demo_importer)) (trace (snd ?run))) = fs"
    by blast
  have "fs = [''a.json'', ''b.json'']"
    using fs(2) by simp
  then show ?thesis
    using outcome fs(1,3) start by simp
qed







lemma some_errors_arrays:
  "\<forall>f\<in>set fs. errors f \<noteq> None \<Longrightarrow> \<exists>b. some_errors fs = Inr b"
  by (induction fs) (auto split: option.splits)

text \<open>
  Enough polls give a result: when every job request is answered with a job descriptor,
  no status fetch from position \<open>N\<close> of the history on answers \<open>pending\<close>, and every error
  listing is an array, then \<open>N\<close> polls (and at least one) fulfil every polling loop, every
  submission and the whole fold.
\<close>

lemma waitAndCheck_resolves:
  assumes tok: "tokenPromise s = Some (Fulfilled tok)"
    and poll: "\<And>n t i. \<exists>j. rp_job w n t (GetJob i) = Inr (Some j) \<and> (N \<le> n \<longrightarrow> status j \<noteq> ''pending'')"
    and errs: "\<And>n t i. \<exists>es. rp_errors w n t (GetJobErrors i) = Inr (Some (Some es))"
    and enough: "status res = ''pending'' \<longrightarrow> 1 \<le> n \<and> N \<le> length (trace s) + n"
  shows "\<exists>fr. fst (waitAndCheck w n f st (Some res) s) = Fulfilled (st\<lparr>files := files st @ [fr]\<rparr>) \<and>
           errors fr \<noteq> None"
  using tok enough
proof (induction n arbitrary: res s)
  case 0
  then have fin: "status res \<noteq> ''pending''" by auto
  from errs [of "length (trace s)" tok "job_id res"] obtain es where
    "rp_errors w (length (trace s)) tok (GetJobErrors (job_id res)) = Inr (Some (Some es))" ..
  then show ?case
    using fin "0.prems"(1)
    by (intro exI [of _ "\<lparr>name = f, result = res, errors = Some es\<rparr>"])
       (simp add: AUTH0_JOB_STATUS_PENDING_def callApi_token)
next
  case (Suc n)
  show ?case
  proof (cases "status res = ''pending''")
    case False
    from errs [of "length (trace s)" tok "job_id res"] obtain es where
      "rp_errors w (length (trace s)) tok (GetJobErrors (job_id res)) = Inr (Some (Some es))" ..
    then show ?thesis
      using False Suc.prems(1)
      by (intro exI [of _ "\<lparr>name = f, result = res, errors = Some es\<rparr>"])
         (simp add: AUTH0_JOB_STATUS_PENDING_def callApi_token)
  next
    case True
    let ?s1 = "sleep WAIT_INTERVAL s"
    let ?req = "GetJob (job_id res)"
    from poll [of "length (trace ?s1)" tok "job_id res"] obtain j where
      j: "rp_job w (length (trace ?s1)) tok ?req = Inr (Some j)"
        "N \<le> length (trace ?s1) \<longrightarrow> status j \<noteq> ''pending''"
      by blast
    let ?s2 = "?s1\<lparr>trace := trace ?s1 @ [Call (apiUrl ?s1 @ uri ?req) tok ?req]\<rparr>"
    have tok1: "tokenPromise ?s1 = Some (Fulfilled tok)"
      using Suc.prems(1) by (simp add: sleep_def)
    have step: "waitAndCheck w (Suc n) f st (Some res) s = waitAndCheck w n f st (Some j) ?s2"
      using True tok1 j(1) by (simp add: AUTH0_JOB_STATUS_PENDING_def callApi_token)
    have tok2: "tokenPromise ?s2 = Some (Fulfilled tok)"
      using tok1 by simp
    have len: "length (trace ?s2) = length (trace s) + 2"
      by (simp add: sleep_def)
    have "status j = ''pending'' \<longrightarrow> 1 \<le> n \<and> N \<le> length (trace ?s2) + n"
    proof
      assume p: "status j = ''pending''"
      with j(2) have "length (trace ?s1) < N" by auto
      then have "length (trace s) + 1 < N" by (simp add: sleep_def)
      moreover from Suc.prems(2) True have "N \<le> length (trace s) + Suc n" by simp
      ultimately show "1 \<le> n \<and> N \<le> length (trace ?s2) + n"
        unfolding len by arith
    qed
    from Suc.IH [OF tok2 this] show ?thesis
      unfolding step .
  qed
qed

lemma postUserImport_resolves:
  assumes tok: "tokenPromise s = Some (Fulfilled tok)"
    and submit: "\<And>n t f c u e. \<exists>j. rp_job w n t (PostUsersImport f c u e) = Inr (Some j)"
    and poll: "\<And>n t i. \<exists>j. rp_job w n t (GetJob i) = Inr (Some j) \<and> (N \<le> n \<longrightarrow> status j \<noteq> ''pending'')"
    and errs: "\<And>n t i. \<exists>es. rp_errors w n t (GetJobErrors i) = Inr (Some (Some es))"
    and enough: "1 \<le> polls" "N \<le> polls"
  shows "\<exists>fr. fst (postUserImport w polls (Fulfilled st, s) f) = Fulfilled (st\<lparr>files := files st @ [fr]\<rparr>) \<and>
           errors fr \<noteq> None"
proof -
  let ?req = "PostUsersImport f (fst (connection st)) (bool_toString (upsert st)) (bool_toString (email st))"
  from submit [of "length (trace s)" tok f "fst (connection st)" "bool_toString (upsert st)"
      "bool_toString (email st)"]
  obtain j where j: "rp_job w (length (trace s)) tok ?req = Inr (Some j)" ..
  let ?s1 = "s\<lparr>trace := trace s @ [Call (apiUrl s @ uri ?req) tok ?req]\<rparr>"
  have step: "postUserImport w polls (Fulfilled st, s) f = waitAndCheck w polls f st (Some j) ?s1"
    using tok j by (simp add: postUserImport_def callApi_token)
  have tok1: "tokenPromise ?s1 = Some (Fulfilled tok)"
    using tok by simp
  have "status j = ''pending'' \<longrightarrow> 1 \<le> polls \<and> N \<le> length (trace ?s1) + polls"
    using enough by simp
  from waitAndCheck_resolves [of ?s1 tok w N j polls f st, OF tok1 poll errs this]
  show ?thesis unfolding step .
qed

lemma foldl_resolves:
  assumes submit: "\<And>n t f c u e. \<exists>j. rp_job w n t (PostUsersImport f c u e) = Inr (Some j)"
    and poll: "\<And>n t i. \<exists>j. rp_job w n t (GetJob i) = Inr (Some j) \<and> (N \<le> n \<longrightarrow> status j \<noteq> ''pending'')"
    and errs: "\<And>n t i. \<exists>es. rp_errors w n t (GetJobErrors i) = Inr (Some (Some es))"
    and enough: "1 \<le> polls" "N \<le> polls"
  shows "tokenPromise s = Some (Fulfilled tok) \<Longrightarrow> \<forall>f\<in>set (files st). errors f \<noteq> None \<Longrightarrow>
     \<exists>st'. fst (foldl (postUserImport w polls) (Fulfilled st, s) fs) = Fulfilled st' \<and>
       (\<forall>f\<in>set (files st'). errors f \<noteq> None)"
proof (induction fs arbitrary: st s)
  case Nil
  then show ?case by simp
next
  case (Cons f fs)
  from postUserImport_resolves [OF Cons.prems(1) submit poll errs enough, of st f]
  obtain fr where fr: "fst (postUserImport w polls (Fulfilled st, s) f) = Fulfilled (st\<lparr>files := files st @ [fr]\<rparr>)"
    "errors fr \<noteq> None"
    by blast
  from postUserImport_frame [of w polls "Fulfilled st" s f] obtain evs where
    "snd (postUserImport w polls (Fulfilled st, s) f) = s\<lparr>trace := trace s @ evs\<rparr>"
    by blast
  with fr(1) have step: "postUserImport w polls (Fulfilled st, s) f =
      (Fulfilled (st\<lparr>files := files st @ [fr]\<rparr>), s\<lparr>trace := trace s @ evs\<rparr>)"
    by (metis prod.collapse)
  have tok': "tokenPromise (s\<lparr>trace := trace s @ evs\<rparr>) = Some (Fulfilled tok)"
    using Cons.prems(1) by simp
  have arrays: "\<forall>f\<in>set (files (st\<lparr>files := files st @ [fr]\<rparr>)). errors f \<noteq> None"
    using Cons.prems(2) fr(2) by simp
  from Cons.IH [OF tok' arrays] show ?case
    using step by simp
qed

text \<open>
  When the connection is valid, every job request is answered, every submitted job leaves
  \<open>pending\<close> (no status fetch from position \<open>N\<close> on answers \<open>pending\<close>) and every error
  listing arrives as an array, empty or not, then with enough polls \<open>import\<close> is fulfilled,
  with one entry per admitted file carrying the errors delivered. The example is a run on
  two files whose jobs end with no and with two error records.
\<close>

theorem array_listings_resolve:
  assumes conn: "opt_connection opts = Some cname" "cname \<noteq> []"
    and expand: "admitted w patterns = Inr fs"
    and valid: "fst (getConnection w cname (case opt_upsert opts of None \<Rightarrow> False | Some b \<Rightarrow> b)
                  (case opt_email opts of None \<Rightarrow> False | Some b \<Rightarrow> b) (getManagementToken w s)) =
                Fulfilled st0"
    and submit: "\<forall>n t f c u e. \<exists>j. rp_job w n t (PostUsersImport f c u e) = Inr (Some j)"
    and poll: "\<forall>n t i. \<exists>j. rp_job w n t (GetJob i) = Inr (Some j) \<and> (N \<le> n \<longrightarrow> status j \<noteq> ''pending'')"
    and errs: "\<forall>n t i. \<exists>es. rp_errors w n t (GetJobErrors i) = Inr (Some (Some es))"
    and enough: "1 \<le> polls" "N \<le> polls"
  shows "\<exists>r. fst (import w polls opts patterns s) = Fulfilled r \<and> map name (files r) = fs \<and>
           (\<forall>f\<in>set (files r). \<exists>es. errors f = Some es)"
proof -
  let ?ups = "case opt_upsert opts of None \<Rightarrow> False | Some b \<Rightarrow> b"
  let ?eml = "case opt_email opts of None \<Rightarrow> False | Some b \<Rightarrow> b"
  let ?s1 = "getManagementToken w s"
  from getConnection_token [OF valid] obtain tok where tok: "tokenPromise ?s1 = Some (Fulfilled tok)" ..
  from getConnection_frame [of w cname ?ups ?eml ?s1] valid obtain evs where
    s2: "snd (getConnection w cname ?ups ?eml ?s1) = ?s1\<lparr>trace := trace ?s1 @ evs\<rparr>"
    and empty: "files st0 = []"
    by auto
  let ?s2 = "?s1\<lparr>trace := trace ?s1 @ evs\<rparr>"
  have seed: "getConnection w cname ?ups ?eml ?s1 = (Fulfilled st0, ?s2)"
    using valid s2 by (metis prod.collapse)
  have tok2: "tokenPromise ?s2 = Some (Fulfilled tok)"
    using tok by simp
  have arrays0: "\<forall>f\<in>set (files st0). errors f \<noteq> None"
    using empty by simp
  have submit': "\<And>n t f c u e. \<exists>j. rp_job w n t (PostUsersImport f c u e) = Inr (Some j)"
    using submit by blast
  have poll': "\<And>n t i. \<exists>j. rp_job w n t (GetJob i) = Inr (Some j) \<and> (N \<le> n \<longrightarrow> status j \<noteq> ''pending'')"
    using poll by blast
  have errs': "\<And>n t i. \<exists>es. rp_errors w n t (GetJobErrors i) = Inr (Some (Some es))"
    using errs by blast
  from foldl_resolves [of w N polls ?s2 tok st0 fs, OF submit' poll' errs' enough tok2 arrays0]
  obtain st' where
    st': "fst (foldl (postUserImport w polls) (Fulfilled st0, ?s2) fs) = Fulfilled st'"
      "\<forall>f\<in>set (files st'). errors f \<noteq> None"
    by blast
  then obtain s3 where fold: "foldl (postUserImport w polls) (Fulfilled st0, ?s2) fs = (Fulfilled st', s3)"
    by (metis prod.collapse)
  from some_errors_arrays [OF st'(2)] obtain b where "some_errors (files st') = Inr b" ..
  then have fin: "finish w st' s3 =
      (Fulfilled (st'\<lparr>endTime := Some (now w (length (trace s3)))\<rparr>), resetTokenTimeout s3)"
    by (simp add: finish_def Let_def resetTokenTimeout_def)
  have run: "import w polls opts patterns s =
      (Fulfilled (st'\<lparr>endTime := Some (now w (length (trace s3)))\<rparr>), resetTokenTimeout s3)"
    using conn expand seed fold fin by (simp add: import_def Let_def)
  from import_frame [OF run] expand
  have "map name (files (st'\<lparr>endTime := Some (now w (length (trace s3)))\<rparr>)) = fs"
    by auto
  then show ?thesis
    using run st'(2) by auto
qed

theorem array_listings_resolve_example:
  "fst (import demo_world (Suc (Suc (Suc (Suc (Suc (Suc 0)))))) demo_options (Some [''*.json''])
          demo_importer) =
     Fulfilled (demo_stats\<lparr>files :=
       [\<lparr>name = ''a.json'', result = \<lparr>job_id = ''a.json'', status = ''completed'', job_summary = None\<rparr>,
           errors = Some []\<rparr>,
        \<lparr>name = ''b.json'', result = \<lparr>job_id = ''b.json'', status = ''completed'', job_summary = None\<rparr>,
           errors = Some [''e1'', ''e2'']\<rparr>],
       endTime := Some 12000\<rparr>)"
proof -
  let ?polls = "Suc (Suc (Suc (Suc (Suc (Suc 0)))))"
  have conn: "opt_connection demo_options = Some ''db''" "''db'' \<noteq> []"
    by (simp_all add: demo_options_def)
  have expand: "admitted demo_world (Some [''*.json'']) = Inr [''a.json'', ''b.json'']"
    by (simp add: run_defs)
  have valid: "fst (getConnection demo_world ''db''
        (case opt_upsert demo_options of None \<Rightarrow> False | Some b \<Rightarrow> b)
        (case opt_email demo_options of None \<Rightarrow> False | Some b \<Rightarrow> b)
        (getManagementToken demo_world demo_importer)) = Fulfilled demo_stats"
    by (simp add: run_defs demo_stats_def)
  have submit: "\<forall>n t f c u e. \<exists>j. rp_job demo_world n t (PostUsersImport f c u e) = Inr (Some j)"
    by (simp add: demo_world_def)
  have poll: "\<forall>n t i. \<exists>j. rp_job demo_world n t (GetJob i) = Inr (Some j) \<and>
      (6 \<le> n \<longrightarrow> status j \<noteq> ''pending'')"
    by (simp add: demo_world_def)
  have errs: "\<forall>n t i. \<exists>es. rp_errors demo_world n t (GetJobErrors i) = Inr (Some (Some es))"
    by (simp add: demo_world_def)
  have enough: "1 \<le> ?polls" "6 \<le> ?polls"
    by simp_all
  from array_listings_resolve [OF conn expand valid submit poll errs enough]
  obtain r where "fst (import demo_world ?polls demo_options (Some [''*.json'']) demo_importer) = Fulfilled r"
    by blast
  then show ?thesis
    by (simp add: run_defs demo_stats_def)
qed

text \<open>
  C7: per-record errors are data, but not every run whose jobs all end is fulfilled. When
  the error listing of a finished job is null, the polling step, which tests the listing
  before reading its length, records the entry and is fulfilled; the final step of
  \<open>import\<close> reads the length without the test and the run is rejected with a type error.
  The same run with an empty array as listing is fulfilled.
\<close>

theorem null_error_listing_rejects:
  "fst (foldl (postUserImport (demo_world\<lparr>rp_errors := \<lambda>n tok req. Inr (Some None)\<rparr>) (Suc (Suc 0)))
          (getConnection (demo_world\<lparr>rp_errors := \<lambda>n tok req. Inr (Some None)\<rparr>) ''db'' False True
             (getManagementToken (demo_world\<lparr>rp_errors := \<lambda>n tok req. Inr (Some None)\<rparr>) demo_importer))
          [''a.json'']) =
     Fulfilled (demo_stats\<lparr>files :=
       [\<lparr>name = ''a.json'', result = \<lparr>job_id = ''a.json'', status = ''completed'', job_summary = None\<rparr>,
           errors = None\<rparr>]\<rparr>) \<and>
   fst (import (demo_world\<lparr>rp_errors := \<lambda>n tok req. Inr (Some None)\<rparr>) (Suc (Suc 0)) demo_options
          (Some [''a.json'']) demo_importer) = Rejected TypeError \<and>
   fst (import demo_world (Suc (Suc 0)) demo_options (Some [''a.json'']) demo_importer) =
     Fulfilled (demo_stats\<lparr>files :=
       [\<lparr>name = ''a.json'', result = \<lparr>job_id = ''a.json'', status = ''completed'', job_summary = None\<rparr>,
           errors = Some []\<rparr>], endTime := Some 8000\<rparr>)"
  by (simp add: run_defs demo_stats_def)

section \<open>The renewal timer at the end of a run\<close>

text \<open>A fulfilled run leaves no timer under the handle it holds.\<close>

lemma resolved_run_cancels_timer:
  assumes "import w polls opts patterns s = (Fulfilled r, s')"
  shows "\<forall>t\<in>set (timers s'). Some (fst t) \<noteq> tokenTimeout s'"
proof -
  have "\<exists>r2 s3. finish w r2 s3 = (Fulfilled r, s')"
    using assms
    by (auto simp: import_def Let_def thenP_def split: option.splits if_splits sum.splits promise.splits)
  then obtain r2 s3 where "finish w r2 s3 = (Fulfilled r, s')" by blast
  then have "s' = resetTokenTimeout s3"
    by (cases "some_errors (files r2)") (simp_all add: finish_def Let_def)
  then show ?thesis
    by (auto simp: resetTokenTimeout_def)
qed

text \<open>
  C4: a run that is rejected after the token arrived (here: the connection is not found)
  leaves the renewal timer scheduled; when it comes due, a further token is requested and
  a further timer is scheduled. A fulfilled run on the same tenant leaves no timer.
\<close>

theorem rejected_run_keeps_renewal_timer:
  "fst (import demo_world 0 (demo_options\<lparr>opt_connection := Some ''nope''\<rparr>) (Some [''a.json''])
          demo_importer) = Rejected (Error ''Connection nope was not found'') \<and>
   timers (snd (import demo_world 0 (demo_options\<lparr>opt_connection := Some ''nope''\<rparr>)
          (Some [''a.json'']) demo_importer)) = [(0, 60000)] \<and>
   trace (fireTimer demo_world 0 (snd (import demo_world 0
          (demo_options\<lparr>opt_connection := Some ''nope''\<rparr>) (Some [''a.json'']) demo_importer))) =
     [Grant ''https://t.auth0.com/api/v2/'' ''create:users read:connections'',
      Call ''https://t.auth0.com/api/v2/connections'' ''tok'' (GetConnections ''nope''),
      Grant ''https://t.auth0.com/api/v2/'' ''create:users read:connections''] \<and>
   timers (fireTimer demo_world 0 (snd (import demo_world 0
          (demo_options\<lparr>opt_connection := Some ''nope''\<rparr>) (Some [''a.json'']) demo_importer))) =
     [(1, 60000)] \<and>
   timers (snd (import demo_world 0 demo_options (Some []) demo_importer)) = []"
  by (simp add: run_defs)

end
